theory Spec2Isabelle
  imports Complex_Main
begin

section \<open>JavaScript strings\<close>

text \<open>
  A JavaScript string is a sequence of UTF-16 code units and \<open>.length\<close> counts them, so a
  string is a list of code-unit numbers. The space character is code unit 32.
  \<open>js\<close> writes an ASCII literal as such a list.
\<close>

type_synonym jsstring = "nat list"

definition js :: "string \<Rightarrow> jsstring" where
  "js s = map of_char s"

text \<open>\<open>String.prototype.split(' ')\<close>: cut at every single space. The result is never
  empty (lemma \<open>split_sp_nonempty\<close>), so the last case below is never taken.\<close>

primrec split_sp :: "jsstring \<Rightarrow> jsstring list" where
  "split_sp [] = [[]]"
| "split_sp (c # cs) =
     (if c = 32 then [] # split_sp cs
      else (case split_sp cs of w # ws \<Rightarrow> (c # w) # ws | [] \<Rightarrow> [[c]]))"

text \<open>\<open>Array.prototype.join(' ')\<close>, the inverse the claims speak of.\<close>

fun join_sp :: "jsstring list \<Rightarrow> jsstring" where
  "join_sp [] = []"
| "join_sp [w] = w"
| "join_sp (w # v # ws) = w @ 32 # join_sp (v # ws)"

section \<open>Errors\<close>

text \<open>
  What the two scripts can throw: the TypeError of an assignment to a \<open>const\<close>, the rejection
  of \<open>loadImage\<close> (its \<open>onerror\<close>) for a source, the rejection of \<open>loadCSVData\<close>, and the
  two \<open>Error\<close>s of \<open>generateBatchPDF\<close> (lines 240 and 292).
\<close>

datatype js_error =
    TypeError_assignment_to_constant
  | ImageLoadError jsstring
  | CsvLoadError
  | NoStudentsInRange
  | PhotoNotFound jsstring jsstring

section \<open>Text fitting (certificate-renderer.js)\<close>

text \<open>
  The font metrics are the browser's: the width that \<open>ctx.measureText\<close> reports for a
  text once \<open>ctx.font\<close> is the bold face at the given pixel size. A metric takes the
  size and the text.
\<close>

type_synonym metric = "nat \<Rightarrow> jsstring \<Rightarrow> real"

record text_line =
  line_text :: jsstring
  line_size :: nat
  line_y :: int

text \<open>\<open>nameFits\<close> (line 142, \<open>maxNameWidth = 2400\<close>) and \<open>fits\<close> (line 424,
  \<open>maxCardNameWidth = cardW - 60 = 440\<close>).\<close>

definition nameFits :: "metric \<Rightarrow> jsstring \<Rightarrow> nat \<Rightarrow> bool" where
  "nameFits measureName text sz \<longleftrightarrow> measureName sz text \<le> 2400"

definition cardFits :: "metric \<Rightarrow> jsstring \<Rightarrow> nat \<Rightarrow> bool" where
  "cardFits measureCard text sz \<longleftrightarrow> measureCard sz text \<le> 500 - 60"

text \<open>The loops \<open>while (!fits(size) && size > min) size -= 5\<close> (lines 153 and 196) and
  \<open>... size -= 2\<close> (lines 438 and 486).\<close>

function shrink5 :: "(nat \<Rightarrow> bool) \<Rightarrow> nat \<Rightarrow> nat \<Rightarrow> nat" where
  "shrink5 fitsAt minSize sz =
     (if \<not> fitsAt sz \<and> sz > minSize then shrink5 fitsAt minSize (sz - 5) else sz)"
  by pat_completeness auto
termination
  by (relation "measure (\<lambda>(fitsAt, minSize, sz). sz)") auto

function shrink2 :: "(nat \<Rightarrow> bool) \<Rightarrow> nat \<Rightarrow> nat \<Rightarrow> nat" where
  "shrink2 fitsAt minSize sz =
     (if \<not> fitsAt sz \<and> sz > minSize then shrink2 fitsAt minSize (sz - 2) else sz)"
  by pat_completeness auto
termination
  by (relation "measure (\<lambda>(fitsAt, minSize, sz). sz)") auto

declare shrink5.simps [simp del] shrink2.simps [simp del]

text \<open>The loop \<open>for (i = 1; i < words.length; i++)\<close> of lines 175-184 and 455-464, with the
  final \<open>lines.push(currentLine)\<close>: \<open>fitsML\<close> is the fit test at the multi-line font size.\<close>

fun wrap :: "(jsstring \<Rightarrow> bool) \<Rightarrow> jsstring list \<Rightarrow> jsstring \<Rightarrow> jsstring list \<Rightarrow> jsstring list" where
  "wrap fitsML lines currentLine [] = lines @ [currentLine]"
| "wrap fitsML lines currentLine (w # ws) =
     (let testLine = currentLine @ 32 # w in
      if fitsML testLine then wrap fitsML lines testLine ws
      else wrap fitsML (lines @ [currentLine]) w ws)"

text \<open>Lines 168-184: \<open>words = text.split(' ')\<close>, \<open>currentLine = words[0]\<close>, then the loop.\<close>

definition greedy_wrap :: "(jsstring \<Rightarrow> bool) \<Rightarrow> jsstring \<Rightarrow> jsstring list" where
  "greedy_wrap fitsML text =
     (let words = split_sp text in wrap fitsML [] (hd words) (tl words))"

text \<open>\<open>lines.forEach\<close> (lines 193-214 and 484-492): each line gets its own size and the
  next baseline.\<close>

primrec place_lines :: "(jsstring \<Rightarrow> nat) \<Rightarrow> int \<Rightarrow> int \<Rightarrow> jsstring list \<Rightarrow> text_line list" where
  "place_lines sizeOf lineHeight currentY [] = []"
| "place_lines sizeOf lineHeight currentY (line # rest) =
     \<lparr>line_text = line, line_size = sizeOf line, line_y = currentY\<rparr>
       # place_lines sizeOf lineHeight (currentY + lineHeight) rest"

text \<open>
  The recipient name block, lines 130-224, on the upper-cased name. \<open>forceMultiLineName\<close>
  is declared \<open>const\<close> (line 145), so the fallback assignment of line 162 throws a
  TypeError; as the constant never changes, the second \<open>if (forceMultiLineName)\<close> of
  line 166 is the \<open>else\<close> branch here.
\<close>

definition name_block :: "metric \<Rightarrow> jsstring \<Rightarrow> js_error + text_line list" where
  "name_block measureName nameText =
     (let nameY = 1100;
          forceMultiLineName = (length nameText > 19)
      in if \<not> forceMultiLineName then
           (let fontSize = shrink5 (nameFits measureName nameText) 120 200
            in if nameFits measureName nameText fontSize
               then Inr [\<lparr>line_text = nameText, line_size = fontSize, line_y = nameY\<rparr>]
               else Inl TypeError_assignment_to_constant)
         else
           (let multiLineFontSize = (if length nameText > 25 then 120 else 150);
                lines = greedy_wrap (\<lambda>t. nameFits measureName t multiLineFontSize) nameText;
                lineHeight = (if length nameText > 25 then 130 else 160);
                totalHeight = (int (length lines) - 1) * lineHeight;
                currentY = nameY - totalHeight div 2
            in Inr (place_lines (\<lambda>line. shrink5 (nameFits measureName line) 80 multiLineFontSize)
                      lineHeight currentY lines)))"

text \<open>The name on the card, lines 415-493, on the name as given.\<close>

definition card_block :: "metric \<Rightarrow> jsstring \<Rightarrow> text_line list" where
  "card_block measureCard fullname =
     (let cardY = 1300; cardH = 800;
          photoY = cardY + 160; photoH = 380;
          startFontSize = 55;
          cardNameY = photoY + photoH + 55;
          forceMultiLine = (length fullname > 15);
          bestSingleLineSize =
            (if \<not> forceMultiLine then shrink2 (cardFits measureCard fullname) 30 startFontSize
             else startFontSize)
      in if \<not> forceMultiLine \<and> cardFits measureCard fullname bestSingleLineSize
         then [\<lparr>line_text = fullname, line_size = bestSingleLineSize, line_y = cardNameY\<rparr>]
         else
           (let multiLineFontSize = (if length fullname > 25 then 26 else 30);
                lines = greedy_wrap (\<lambda>t. cardFits measureCard t multiLineFontSize) fullname;
                lineHeight = (if length fullname > 25 then 32 else 36);
                qrTopMargin = cardY + cardH - 140 - 30;
                maxNameBottomY = qrTopMargin;
                projectedBottomY = cardNameY + (int (length lines) - 1) * lineHeight;
                startY = (if projectedBottomY > maxNameBottomY
                          then maxNameBottomY - (int (length lines) - 1) * lineHeight
                          else cardNameY)
            in place_lines (\<lambda>line. shrink2 (cardFits measureCard line) 16 multiLineFontSize)
                 lineHeight startY lines))"

text \<open>A metric for examples: every code unit advances \<open>k\<close> em.\<close>

definition em_metric :: "real \<Rightarrow> metric" where
  "em_metric k sz text = k * real sz * real (length text)"

text \<open>A metric is monotone when a larger font size never makes a text narrower.\<close>

definition mono_metric :: "metric \<Rightarrow> bool" where
  "mono_metric m \<longleftrightarrow> (\<forall>text s s'. s \<le> s' \<longrightarrow> m s text \<le> m s' text)"

section \<open>The composer (certificate-renderer.js, renderCertificate)\<close>

datatype lang = En | Te

text \<open>The \<open>user\<close> object, as \<open>parseStudent\<close> builds it.\<close>

record user =
  student_id :: jsstring
  rollno :: jsstring
  student_name :: jsstring
  telugu_name :: jsstring
  photo_filename :: jsstring

text \<open>
  What \<open>new QRCode(div, ...)\<close> leaves in its \<open>div\<close>, as lines 511-520 look at it: an \<open>img\<close>
  with a non-empty \<open>src\<close>; else a \<open>canvas\<close>; else neither.
\<close>

datatype qr_dom = QrImg jsstring | QrCanvas | QrNothing

text \<open>
  The browser around one composition: the two bold faces the name is measured in
  (Cormorant Garamond, line 137; Montserrat, line 425), \<open>String.prototype.toUpperCase\<close>,
  whether the image of a source loads (\<open>loadImage\<close> resolves) or not (it rejects), and the
  QR library.
\<close>

record render_env =
  measureName :: metric
  measureCard :: metric
  toUpperCase :: "jsstring \<Rightarrow> jsstring"
  loadImage :: "jsstring \<Rightarrow> bool"
  qrcode :: "jsstring \<Rightarrow> qr_dom"

text \<open>
  The drawing surface is the sequence of what has been painted on the canvas, stage by
  stage; coordinates are kept for the name lines, whose layout is computed.
\<close>

datatype draw_op =
    Background
  | IdText lang jsstring
  | TitleBlock lang
  | NameLine text_line
  | BodyText lang
  | DateBlock lang
  | SignatureImage
  | SignatureBlock lang
  | CardBody
  | PhotoImage jsstring
  | CardNameLine text_line
  | QrBackground
  | QrImage jsstring
  | QrCanvasImage

type_synonym surface = "draw_op list"

definition signature_src :: jsstring where
  "signature_src = js ''assets/signature.png''"

definition qr_url :: "jsstring \<Rightarrow> jsstring" where
  "qr_url r = js ''https://aikaryashala.com/certificates/bootcamp/kiet/'' @ r"

text \<open>
  \<open>renderCertificate(user, photoBase64, lang)\<close>. The signature (lines 315-335) and the photo
  (lines 408-413) are loaded inside \<open>try/catch\<close>; the QR image (line 513) is awaited outside
  any \<open>try\<close>, so its rejection is the rejection of the whole call.
\<close>

definition renderCertificate :: "render_env \<Rightarrow> user \<Rightarrow> jsstring \<Rightarrow> lang \<Rightarrow> js_error + surface" where
  "renderCertificate E u photoBase64 lng =
     (let s1 = [Background, IdText lng (student_id u), TitleBlock lng]
      in case name_block (measureName E) (toUpperCase E (student_name u)) of
           Inl e \<Rightarrow> Inl e
         | Inr nameLines \<Rightarrow>
            (let s2 = s1 @ map NameLine nameLines @ [BodyText lng, DateBlock lng];
                 s3 = s2 @ (if loadImage E signature_src then [SignatureImage] else []);
                 s4 = s3 @ [SignatureBlock lng, CardBody];
                 s5 = s4 @ (if loadImage E photoBase64 then [PhotoImage photoBase64] else []);
                 s6 = s5 @ map CardNameLine (card_block (measureCard E) (student_name u))
                         @ [QrBackground]
             in case qrcode E (qr_url (rollno u)) of
                  QrImg src \<Rightarrow>
                    if loadImage E src then Inr (s6 @ [QrImage src]) else Inl (ImageLoadError src)
                | QrCanvas \<Rightarrow> Inr (s6 @ [QrCanvasImage])
                | QrNothing \<Rightarrow> Inr s6))"

section \<open>Reading the CSV rows (admin-bulk.js)\<close>

text \<open>A row of the parsed CSV: header name to cell text.\<close>

type_synonym csv_row = "jsstring \<rightharpoonup> jsstring"

datatype column_type =
    Col_student_id | Col_english_first | Col_english_second
  | Col_telugu_first | Col_telugu_second | Col_photo | Col_student_name

fun COLUMN_MAPS :: "column_type \<Rightarrow> jsstring list" where
  "COLUMN_MAPS Col_student_id =
     map js [''CRollNumber'', ''ID'', ''id'', ''student_id'', ''StudentID'', ''Student ID'',
             ''rollno'', ''RollNo'']"
| "COLUMN_MAPS Col_english_first =
     map js [''English 1st Line'', ''English 1st line'', ''english_first'', ''First Name'',
             ''FirstName'']"
| "COLUMN_MAPS Col_english_second =
     map js [''English 2nd Line'', ''English 2nd line'', ''english_second'', ''Last Name'',
             ''LastName'', ''Surname'']"
| "COLUMN_MAPS Col_telugu_first =
     map js [''Telugu 1st Line'', ''Telugu 1st line'', ''telugu_first'']"
| "COLUMN_MAPS Col_telugu_second =
     map js [''Telugu 2nd Line'', ''Telugu 2nd line'', ''telugu_second'']"
| "COLUMN_MAPS Col_photo = map js [''Photos'', ''Photo'', ''photo'', ''PhotoFile'', ''Image'']"
| "COLUMN_MAPS Col_student_name =
     map js [''CName'', ''student_name'', ''Student Name'', ''Name'', ''FullName'', ''Full Name'']"

text \<open>\<open>String.prototype.trim\<close>: the white space and line terminators of ECMAScript.\<close>

definition js_whitespace :: "nat \<Rightarrow> bool" where
  "js_whitespace c \<longleftrightarrow>
     c \<in> {9, 10, 11, 12, 13, 32, 160, 5760, 8232, 8233, 8239, 8287, 12288, 65279}
     \<or> (8192 \<le> c \<and> c \<le> 8202)"

definition trim :: "jsstring \<Rightarrow> jsstring" where
  "trim s = rev (dropWhile js_whitespace (rev (dropWhile js_whitespace s)))"

text \<open>The loop of \<open>getColumnValue\<close> over the possible names; \<open>None\<close> is \<open>null\<close>.\<close>

fun first_column :: "csv_row \<Rightarrow> jsstring list \<Rightarrow> jsstring option" where
  "first_column row [] = None"
| "first_column row (name # names) =
     (case row name of
        None \<Rightarrow> first_column row names
      | Some v \<Rightarrow> if v \<noteq> [] then Some (trim v) else first_column row names)"

definition getColumnValue :: "csv_row \<Rightarrow> column_type \<Rightarrow> jsstring option" where
  "getColumnValue row columnType = first_column row (COLUMN_MAPS columnType)"

text \<open>\<open>x || ''\<close> on a string or \<open>null\<close>, and the truthiness \<open>!!x\<close>.\<close>

definition or_empty :: "jsstring option \<Rightarrow> jsstring" where
  "or_empty x = (case x of None \<Rightarrow> [] | Some v \<Rightarrow> v)"

definition truthy :: "jsstring option \<Rightarrow> bool" where
  "truthy x \<longleftrightarrow> or_empty x \<noteq> []"

definition parseStudent :: "csv_row \<Rightarrow> user option" where
  "parseStudent row =
     (let sid = getColumnValue row Col_student_id
      in if \<not> truthy sid then None
         else
           (let name0 = getColumnValue row Col_student_name;
                name1 = (if \<not> truthy name0
                         then trim (or_empty (getColumnValue row Col_english_first) @ 32
                                     # or_empty (getColumnValue row Col_english_second))
                         else or_empty name0);
                tname = trim (or_empty (getColumnValue row Col_telugu_first) @ 32
                               # or_empty (getColumnValue row Col_telugu_second));
                photo0 = getColumnValue row Col_photo;
                photo1 = (if \<not> truthy photo0 then or_empty sid @ js ''.jpeg'' else or_empty photo0)
            in Some \<lparr>student_id = or_empty sid, rollno = or_empty sid, student_name = name1,
                     telugu_name = tname, photo_filename = photo1\<rparr>))"

section \<open>The photo resolver (admin-bulk.js, loadPhotoAsBase64)\<close>

text \<open>
  One \<open>fetch\<close> of a URL, as the loop of lines 140-155 sees it: \<open>FetchFailed\<close> when the fetch
  throws, the response is not ok or its blob cannot be read (the next candidate is
  tried); \<open>ReadFailed\<close> when the FileReader reports an error (the returned promise
  rejects); \<open>Fetched d\<close> with the data URL.
\<close>

datatype fetch_result = FetchFailed | ReadFailed | Fetched jsstring

definition lower_ascii :: "nat \<Rightarrow> nat" where
  "lower_ascii c = (if 65 \<le> c \<and> c \<le> 90 then c + 32 else c)"

definition ends_with_ci :: "jsstring \<Rightarrow> jsstring \<Rightarrow> bool" where
  "ends_with_ci s suffix \<longleftrightarrow>
     length suffix \<le> length s \<and> map lower_ascii (drop (length s - length suffix) s) = suffix"

text \<open>The length of the match of \<open>/\.(jpeg|jpg|png)$/i\<close>, 0 when there is none.\<close>

definition photo_ext_length :: "jsstring \<Rightarrow> nat" where
  "photo_ext_length f =
     (if ends_with_ci f (js ''.jpeg'') then 5
      else if ends_with_ci f (js ''.jpg'') \<or> ends_with_ci f (js ''.png'') then 4
      else 0)"

definition replace_ext :: "jsstring \<Rightarrow> jsstring \<Rightarrow> jsstring" where
  "replace_ext f new = take (length f - photo_ext_length f) f @ (if photo_ext_length f = 0 then [] else new)"

text \<open>\<open>[...new Set(xs)]\<close>: the first occurrence of each element, in order.\<close>

definition set_order :: "'a list \<Rightarrow> 'a list" where
  "set_order xs = rev (remdups (rev xs))"

definition photo_candidates :: "jsstring \<Rightarrow> jsstring list" where
  "photo_candidates filename =
     (let baseWithoutExt = replace_ext filename []
      in set_order
           ([filename,
             replace_ext filename (js ''.jpeg''), replace_ext filename (js ''.jpg''),
             replace_ext filename (js ''.JPEG''), replace_ext filename (js ''.JPG''),
             replace_ext filename (js ''.png''), replace_ext filename (js ''.PNG'')]
            @ [baseWithoutExt @ js ''.jpeg'', baseWithoutExt @ js ''.jpg'',
               baseWithoutExt @ js ''.png'', baseWithoutExt @ js ''.PNG'']))"

fun try_fetch :: "(jsstring \<Rightarrow> fetch_result) \<Rightarrow> jsstring \<Rightarrow> jsstring list \<Rightarrow> jsstring option" where
  "try_fetch fetch basePath [] = None"
| "try_fetch fetch basePath (ext # exts) =
     (case fetch (basePath @ ext) of
        FetchFailed \<Rightarrow> try_fetch fetch basePath exts
      | ReadFailed \<Rightarrow> None
      | Fetched d \<Rightarrow> Some d)"

text \<open>\<open>None\<close> is the rejection (\<open>Photo not found\<close>, or the reader's error).\<close>

definition loadPhotoAsBase64 :: "(jsstring \<Rightarrow> fetch_result) \<Rightarrow> jsstring \<Rightarrow> jsstring \<Rightarrow> jsstring option" where
  "loadPhotoAsBase64 fetch photosPath filename =
     (let basePath0 = trim photosPath;
          basePath = (if basePath0 \<noteq> [] \<and> last basePath0 = 47 then basePath0
                      else basePath0 @ [47])
      in try_fetch fetch basePath (photo_candidates filename))"

section \<open>The batch export (admin-bulk.js, generateBatchPDF)\<close>

text \<open>The two module variables of lines 11-12.\<close>

record globals =
  cancelRequested :: bool
  isGenerating :: bool

text \<open>\<open>cancelGeneration\<close>, the click handler of the cancel button (lines 392-397).\<close>

definition cancelGeneration :: "globals \<Rightarrow> globals" where
  "cancelGeneration g = (if isGenerating g then g\<lparr>cancelRequested := True\<rparr> else g)"

text \<open>
  The form and the world around one run: the input fields (\<open>parseInt\<close> of a field is
  \<open>None\<close> when it gives \<open>NaN\<close>), the outcome of \<open>loadCSVData\<close> (\<open>None\<close> when it rejects), the
  network, the browser of the composer, and the user at the cancel button.

  The function is asynchronous: it is suspended at each of its \<open>await\<close>s (lines 231, 282,
  298, 299, 322, 323 and 338), and only then can the click handler run. The waits of a
  run are numbered in the order in which it reaches them, from 0; \<open>clickAt k\<close> says that
  the cancel button is clicked during wait \<open>k\<close>.
\<close>

record run_env =
  photosPathInput :: jsstring
  startIndexInput :: "int option"
  batchSizeInput :: "int option"
  generateTelugu :: bool
  skipMissing :: bool
  csvData :: "csv_row list option"
  fetch :: "jsstring \<Rightarrow> fetch_result"
  browser :: render_env
  clickAt :: "nat \<Rightarrow> bool"

text \<open>
  The document of jsPDF: its pages, each with the images added to it. A new document has
  one empty page; \<open>addPage\<close> appends a page and makes it current; \<open>addImage\<close> draws on the
  current page, here always the last.
\<close>

type_synonym pdf_doc = "surface list list"

definition new_jsPDF :: pdf_doc where
  "new_jsPDF = [[]]"

definition addPage :: "pdf_doc \<Rightarrow> pdf_doc" where
  "addPage doc = doc @ [[]]"

definition addImage :: "surface \<Rightarrow> pdf_doc \<Rightarrow> pdf_doc" where
  "addImage img doc = butlast doc @ [last doc @ [img]]"

datatype skipped_entry = SkippedRow int | SkippedId jsstring

text \<open>The variables of the loop (lines 251-259), the module variables, and the number of
  waits the run has been through.\<close>

record loop_state =
  glob :: globals
  tick :: nat
  pdf :: pdf_doc
  firstPage :: bool
  successCount :: nat
  skipCount :: nat
  currentStep :: nat
  generatedRollNumbers :: "jsstring list"
  skippedRollNumbers :: "skipped_entry list"

text \<open>One \<open>await\<close>: the click handler runs if the button is clicked during this wait.\<close>

definition await :: "run_env \<Rightarrow> loop_state \<Rightarrow> loop_state" where
  "await E s =
     s\<lparr>glob := (if clickAt E (tick s) then cancelGeneration (glob s) else glob s),
       tick := tick s + 1\<rparr>"

definition photosPath :: "run_env \<Rightarrow> jsstring" where
  "photosPath E = (if photosPathInput E = [] then js ''assets/photos/'' else photosPathInput E)"

definition startIndex :: "run_env \<Rightarrow> int" where
  "startIndex E = (case startIndexInput E of None \<Rightarrow> 0 | Some v \<Rightarrow> v)"

definition batchSize :: "run_env \<Rightarrow> int" where
  "batchSize E = (case batchSizeInput E of None \<Rightarrow> 50 | Some v \<Rightarrow> if v = 0 then 50 else v)"

text \<open>\<open>Array.prototype.slice(start, end)\<close>: a negative index counts from the end.\<close>

definition js_slice :: "'a list \<Rightarrow> int \<Rightarrow> int \<Rightarrow> 'a list" where
  "js_slice xs start end' =
     (let n = int (length xs);
          from = (if start < 0 then max (n + start) 0 else min start n);
          to = (if end' < 0 then max (n + end') 0 else min end' n)
      in take (nat (to - from)) (drop (nat from) xs))"

definition endIndex :: "run_env \<Rightarrow> csv_row list \<Rightarrow> int" where
  "endIndex E csv = min (startIndex E + batchSize E) (int (length csv))"

definition batchData :: "run_env \<Rightarrow> csv_row list \<Rightarrow> csv_row list" where
  "batchData E csv = js_slice csv (startIndex E) (endIndex E csv)"

text \<open>How one pass through the loop body ends: \<open>continue\<close> or its end, \<open>break\<close>, or a throw.\<close>

datatype step_result = Continue loop_state | Break loop_state | Throw js_error loop_state

text \<open>Lines 272-276, the row without an id or a name.\<close>

definition skip_invalid :: "run_env \<Rightarrow> nat \<Rightarrow> loop_state \<Rightarrow> loop_state" where
  "skip_invalid E i s =
     s\<lparr>skippedRollNumbers := skippedRollNumbers s @ [SkippedRow (startIndex E + int i)],
       skipCount := skipCount s + 1,
       currentStep := currentStep s + 1\<rparr>"

text \<open>Lines 285-290, the record whose photo is not found, when missing photos are skipped.\<close>

definition skip_missing_photo :: "run_env \<Rightarrow> user \<Rightarrow> loop_state \<Rightarrow> loop_state" where
  "skip_missing_photo E student s =
     s\<lparr>skippedRollNumbers := skippedRollNumbers s @ [SkippedId (student_id student)],
       skipCount := skipCount s + 1,
       currentStep := currentStep s + (if generateTelugu E then 2 else 1)\<rparr>"

text \<open>The page of a finished composition: lines 302-311 for English, 325-329 for Telugu.\<close>

definition add_english_page :: "surface \<Rightarrow> loop_state \<Rightarrow> loop_state" where
  "add_english_page img s =
     s\<lparr>pdf := addImage img (if \<not> firstPage s then addPage (pdf s) else pdf s),
       firstPage := False,
       currentStep := currentStep s + 1\<rparr>"

definition add_telugu_page :: "surface \<Rightarrow> loop_state \<Rightarrow> loop_state" where
  "add_telugu_page img s =
     s\<lparr>pdf := addImage img (addPage (pdf s)), currentStep := currentStep s + 1\<rparr>"

text \<open>Lines 335-338: the record is counted and the loop yields (\<open>await sleep(10)\<close>).\<close>

definition record_done :: "run_env \<Rightarrow> user \<Rightarrow> loop_state \<Rightarrow> loop_state" where
  "record_done E student s =
     await E
       (s\<lparr>successCount := successCount s + 1,
          generatedRollNumbers := generatedRollNumbers s @ [student_id student]\<rparr>)"

text \<open>
  The body of the loop over the batch, lines 263-338, for the record at position \<open>i\<close>.
  A composition is two waits: the call of \<open>renderCertificate\<close> and, if it returns, the
  pause \<open>sleep(50)\<close>.
\<close>

definition process_row :: "run_env \<Rightarrow> nat \<Rightarrow> csv_row \<Rightarrow> loop_state \<Rightarrow> step_result" where
  "process_row E i row s =
     (if cancelRequested (glob s) then Break s
      else case parseStudent row of
        None \<Rightarrow> Continue (skip_invalid E i s)
      | Some student \<Rightarrow>
          if student_name student = [] then Continue (skip_invalid E i s)
          else
            (let s1 = await E s
             in case loadPhotoAsBase64 (fetch E) (photosPath E) (photo_filename student) of
                  None \<Rightarrow>
                    if skipMissing E then Continue (skip_missing_photo E student s1)
                    else Throw (PhotoNotFound (student_id student) (photo_filename student)) s1
                | Some photoBase64 \<Rightarrow>
                    (let s2 = await E s1
                     in case renderCertificate (browser E) student photoBase64 En of
                          Inl e \<Rightarrow> Throw e s2
                        | Inr img \<Rightarrow>
                            (let s3 = add_english_page img (await E s2)
                             in if generateTelugu E \<and> telugu_name student \<noteq> [] then
                                  if cancelRequested (glob s3) then Break s3
                                  else
                                    (let s4 = await E s3
                                     in case renderCertificate (browser E) student photoBase64 Te of
                                          Inl e \<Rightarrow> Throw e s4
                                        | Inr imgTe \<Rightarrow>
                                            Continue (record_done E student
                                                        (add_telugu_page imgTe (await E s4))))
                                else if generateTelugu E then
                                  Continue (record_done E student
                                              (s3\<lparr>currentStep := currentStep s3 + 1\<rparr>))
                                else Continue (record_done E student s3)))))"

text \<open>The loop \<open>for (let i = 0; i < batchData.length; i++)\<close>; \<open>Some e\<close> is a throw out of it.\<close>

fun process_rows :: "run_env \<Rightarrow> nat \<Rightarrow> csv_row list \<Rightarrow> loop_state \<Rightarrow> js_error option \<times> loop_state" where
  "process_rows E i [] s = (None, s)"
| "process_rows E i (row # rows) s =
     (case process_row E i row s of
        Continue s' \<Rightarrow> process_rows E (Suc i) rows s'
      | Break s' \<Rightarrow> (None, s')
      | Throw e s' \<Rightarrow> (Some e, s'))"

text \<open>
  How a call ends, in the words of the state machine: \<open>Rejected\<close> is the early return of
  line 209; \<open>Failed e\<close> is the \<open>catch\<close> block of lines 380-382; without a throw the run is
  \<open>Cancelled\<close> when the cancel flag is set at its end and \<open>Completed\<close> otherwise.
  \<open>saved\<close> is the document given to \<open>pdf.save\<close> with the two numbers of its file name;
  \<open>duration\<close> is the number of waits the call went through.
\<close>

datatype run_status = Rejected | Failed js_error | Cancelled | Completed

record run_result =
  status :: run_status
  saved :: "(int \<times> int \<times> pdf_doc) option"
  successes :: nat
  skips :: nat
  generated :: "jsstring list"
  skipped :: "skipped_entry list"
  duration :: nat

definition initial_loop_state :: "globals \<Rightarrow> loop_state" where
  "initial_loop_state g =
     \<lparr>glob = g, tick = 1, pdf = new_jsPDF, firstPage = True, successCount = 0, skipCount = 0,
      currentStep = 0, generatedRollNumbers = [], skippedRollNumbers = []\<rparr>"

definition no_result :: "run_status \<Rightarrow> nat \<Rightarrow> run_result" where
  "no_result st d =
     \<lparr>status = st, saved = None, successes = 0, skips = 0, generated = [], skipped = [],
      duration = d\<rparr>"

text \<open>The \<open>finally\<close> block, lines 383-388.\<close>

definition finally_block :: "globals \<Rightarrow> globals" where
  "finally_block g = g\<lparr>isGenerating := False\<rparr>"

text \<open>The end of the \<open>try\<close> block, lines 341-378, after a loop that did not throw.\<close>

definition finish :: "run_env \<Rightarrow> csv_row list \<Rightarrow> loop_state \<Rightarrow> run_result" where
  "finish E csv s =
     \<lparr>status = (if cancelRequested (glob s) then Cancelled else Completed),
      saved = (if \<not> cancelRequested (glob s) \<and> successCount s > 0
               then Some (startIndex E, endIndex E csv - 1, pdf s) else None),
      successes = successCount s, skips = skipCount s,
      generated = generatedRollNumbers s, skipped = skippedRollNumbers s,
      duration = tick s\<rparr>"

definition failed :: "js_error \<Rightarrow> loop_state \<Rightarrow> run_result" where
  "failed e s =
     \<lparr>status = Failed e, saved = None, successes = successCount s, skips = skipCount s,
      generated = generatedRollNumbers s, skipped = skippedRollNumbers s,
      duration = tick s\<rparr>"

definition generateBatchPDF :: "run_env \<Rightarrow> globals \<Rightarrow> run_result \<times> globals" where
  "generateBatchPDF E g =
     (if isGenerating g then (no_result Rejected 0, g)
      else
        (let g1 = g\<lparr>isGenerating := True, cancelRequested := False\<rparr>;
             g2 = (if clickAt E 0 then cancelGeneration g1 else g1)
         in case csvData E of
              None \<Rightarrow> (no_result (Failed CsvLoadError) 1, finally_block g2)
            | Some csv \<Rightarrow>
                if batchData E csv = [] then
                  (no_result (Failed NoStudentsInRange) 1, finally_block g2)
                else
                  (case process_rows E 0 (batchData E csv) (initial_loop_state g2) of
                     (Some e, s) \<Rightarrow> (failed e s, finally_block (glob s))
                   | (None, s) \<Rightarrow> (finish E csv s, finally_block (glob s)))))"

text \<open>Vocabulary of the claims about a batch, over the functions above.\<close>

definition valid_row :: "csv_row \<Rightarrow> bool" where
  "valid_row row =
     (case parseStudent row of None \<Rightarrow> False | Some student \<Rightarrow> student_name student \<noteq> [])"

definition photo_of :: "run_env \<Rightarrow> csv_row \<Rightarrow> jsstring option" where
  "photo_of E row =
     (case parseStudent row of
        None \<Rightarrow> None
      | Some student \<Rightarrow> loadPhotoAsBase64 (fetch E) (photosPath E) (photo_filename student))"

definition resolvable :: "run_env \<Rightarrow> csv_row \<Rightarrow> bool" where
  "resolvable E row \<longleftrightarrow> photo_of E row \<noteq> None"

definition english_certificate :: "run_env \<Rightarrow> csv_row \<Rightarrow> (js_error + surface) option" where
  "english_certificate E row =
     (case parseStudent row of
        None \<Rightarrow> None
      | Some student \<Rightarrow>
          (case loadPhotoAsBase64 (fetch E) (photosPath E) (photo_filename student) of
             None \<Rightarrow> None
           | Some photoBase64 \<Rightarrow> Some (renderCertificate (browser E) student photoBase64 En)))"

text \<open>The page of a record in the document: its English composition, alone on the page.\<close>

definition page_of :: "run_env \<Rightarrow> csv_row \<Rightarrow> surface list" where
  "page_of E row = (case english_certificate E row of Some (Inr img) \<Rightarrow> [img] | _ \<Rightarrow> [])"

text \<open>
  Notions for the proofs: the cancel flag says whether the button has been clicked in a
  wait so far (and the run holds the in-flight flag); the pages that carry an image; the
  new document is still untouched while \<open>firstPage\<close> is set; the state in which the
  loop starts; the state a pass through the loop body ends in.
\<close>

definition flag_tracks_clicks :: "run_env \<Rightarrow> loop_state \<Rightarrow> bool" where
  "flag_tracks_clicks E s \<longleftrightarrow>
     isGenerating (glob s) \<and> (cancelRequested (glob s) \<longleftrightarrow> (\<exists>k<tick s. clickAt E k))"

definition pages :: "loop_state \<Rightarrow> pdf_doc" where
  "pages s = (if firstPage s then [] else pdf s)"

definition pdf_fresh :: "loop_state \<Rightarrow> bool" where
  "pdf_fresh s \<longleftrightarrow> (firstPage s \<longrightarrow> pdf s = new_jsPDF)"

definition loop_start :: "run_env \<Rightarrow> globals \<Rightarrow> loop_state" where
  "loop_start E g =
     initial_loop_state
       (let g1 = g\<lparr>isGenerating := True, cancelRequested := False\<rparr>
        in if clickAt E 0 then cancelGeneration g1 else g1)"

fun state_of :: "step_result \<Rightarrow> loop_state" where
  "state_of (Continue s) = s"
| "state_of (Break s) = s"
| "state_of (Throw e s) = s"

section \<open>Examples\<close>

definition ascii_upper :: "jsstring \<Rightarrow> jsstring" where
  "ascii_upper s = map (\<lambda>c. if 97 \<le> c \<and> c \<le> 122 then c - 32 else c) s"

definition demo_browser :: render_env where
  "demo_browser =
     \<lparr>measureName = em_metric (6/10), measureCard = em_metric (6/10),
      toUpperCase = ascii_upper, loadImage = (\<lambda>src. True), qrcode = (\<lambda>url. QrCanvas)\<rparr>"

definition demo_row :: "string \<Rightarrow> string \<Rightarrow> csv_row" where
  "demo_row ident name = [js ''ID'' \<mapsto> js ident, js ''Name'' \<mapsto> js name]"

definition demo_fetch :: "jsstring \<Rightarrow> fetch_result" where
  "demo_fetch url =
     (if url = js ''assets/photos/A1.jpeg'' then Fetched (js ''data:A1'')
      else if url = js ''assets/photos/C3.jpeg'' then Fetched (js ''data:C3'')
      else FetchFailed)"

definition demo_env :: run_env where
  "demo_env =
     \<lparr>photosPathInput = [], startIndexInput = Some 0, batchSizeInput = Some 50,
      generateTelugu = False, skipMissing = True,
      csvData = Some [demo_row ''A1'' ''Asha Rao'', demo_row ''B2'' ''Bala Kumar'',
                      demo_row ''C3'' ''Chitra Devi''],
      fetch = demo_fetch, browser = demo_browser, clickAt = (\<lambda>k. False)\<rparr>"

definition idle :: globals where
  "idle = \<lparr>cancelRequested = False, isGenerating = False\<rparr>"

text \<open>The cancel button clicked during the pause after the first record (wait 4), no photo
  on the network, an empty CSV file, and a run already in flight.\<close>

definition cancel_env :: run_env where
  "cancel_env = demo_env\<lparr>clickAt := (\<lambda>k. k = 4)\<rparr>"

definition empty_env :: run_env where
  "empty_env = demo_env\<lparr>csvData := Some []\<rparr>"

definition running :: globals where
  "running = \<lparr>cancelRequested = False, isGenerating = True\<rparr>"

definition blackout_env :: run_env where
  "blackout_env =
     demo_env\<lparr>fetch := (\<lambda>url. FetchFailed),
              csvData := Some [demo_row ''A1'' ''Asha Rao'', demo_row ''D4'' []]\<rparr>"

text \<open>One recipient, a browser in which the QR image does not load, and one in which no
  image loads.\<close>

definition asha :: user where
  "asha = \<lparr>student_id = js ''A1'', rollno = js ''A1'', student_name = js ''Asha Rao'',
           telugu_name = [], photo_filename = js ''A1.jpeg''\<rparr>"

definition qr_fails_browser :: render_env where
  "qr_fails_browser =
     demo_browser\<lparr>qrcode := (\<lambda>url. QrImg (js ''data:qr'')),
                  loadImage := (\<lambda>src. src \<noteq> js ''data:qr'')\<rparr>"

definition no_images_browser :: render_env where
  "no_images_browser = demo_browser\<lparr>loadImage := (\<lambda>src. False)\<rparr>"

section \<open>Properties of the text fitting\<close>

subsection \<open>Splitting, joining and the greedy wrap\<close>

lemma split_sp_nonempty: "split_sp t \<noteq> []"
  by (induction t) (auto split: list.splits)

lemma join_sp_Cons: "ws \<noteq> [] \<Longrightarrow> join_sp (w # ws) = w @ 32 # join_sp ws"
  by (cases ws) auto

lemma join_split_sp: "join_sp (split_sp t) = t"
proof (induction t)
  case Nil
  show ?case by simp
next
  case (Cons c cs)
  obtain w ws where sp: "split_sp cs = w # ws"
    using split_sp_nonempty [of cs] by (cases "split_sp cs") auto
  show ?case
  proof (cases "c = 32")
    case True
    then show ?thesis using Cons sp by (simp add: join_sp_Cons)
  next
    case False
    then show ?thesis using Cons sp by (cases ws) auto
  qed
qed

lemma join_sp_merge: "join_sp (xs @ (a @ 32 # b) # ys) = join_sp (xs @ a # b # ys)"
proof (induction xs)
  case Nil
  show ?case by (cases ys) auto
next
  case (Cons x xs)
  then show ?case by (simp add: join_sp_Cons)
qed

lemma wrap_join: "join_sp (wrap f lines cur ws) = join_sp (lines @ cur # ws)"
proof (induction ws arbitrary: lines cur)
  case Nil
  show ?case by simp
next
  case (Cons w ws)
  show ?case
    by (simp add: Let_def Cons join_sp_merge)
qed

lemma hd_tl_split_sp: "hd (split_sp t) # tl (split_sp t) = split_sp t"
  by (simp add: split_sp_nonempty)

lemma greedy_wrap_join: "join_sp (greedy_wrap f t) = t"
  by (simp add: greedy_wrap_def Let_def wrap_join hd_tl_split_sp join_split_sp)

lemma split_sp_append: "split_sp (a @ 32 # b) = split_sp a @ split_sp b"
proof (induction a)
  case Nil
  show ?case by simp
next
  case (Cons c cs)
  then show ?case using split_sp_nonempty [of cs] by (cases "split_sp cs") auto
qed

lemma split_sp_no_space: "32 \<notin> set w \<Longrightarrow> split_sp w = [w]"
  by (induction w) auto

lemma split_sp_words_no_space: "w \<in> set (split_sp t) \<Longrightarrow> 32 \<notin> set w"
proof (induction t arbitrary: w)
  case Nil
  then show ?case by simp
next
  case (Cons c cs)
  obtain v vs where sp: "split_sp cs = v # vs"
    using split_sp_nonempty [of cs] by (cases "split_sp cs") auto
  have "32 \<notin> set v" and "\<And>u. u \<in> set vs \<Longrightarrow> 32 \<notin> set u"
    using Cons.IH sp by auto
  then show ?case using Cons.prems sp by (auto split: if_splits)
qed

lemma wrap_split:
  "concat (map split_sp (wrap f lines cur ws)) =
   concat (map split_sp lines) @ split_sp cur @ concat (map split_sp ws)"
proof (induction ws arbitrary: lines cur)
  case Nil
  show ?case by simp
next
  case (Cons w ws)
  show ?case by (simp add: Let_def Cons split_sp_append)
qed

lemma concat_split_words:
  "\<forall>w\<in>set ws. 32 \<notin> set w \<Longrightarrow> concat (map split_sp ws) = ws"
  by (induction ws) (auto simp: split_sp_no_space)

lemma greedy_wrap_split: "concat (map split_sp (greedy_wrap f t)) = split_sp t"
proof -
  have "concat (map split_sp (split_sp t)) = split_sp t"
    by (rule concat_split_words) (simp add: split_sp_words_no_space)
  then have "concat (map split_sp (hd (split_sp t) # tl (split_sp t))) = split_sp t"
    by (simp only: hd_tl_split_sp)
  then show ?thesis
    by (simp add: greedy_wrap_def Let_def wrap_split)
qed

subsection \<open>The shrink loops and the lines of the wrap\<close>

lemma shrink5_fits_or_min: "fitsAt (shrink5 fitsAt m s) \<or> shrink5 fitsAt m s \<le> m"
proof (induction fitsAt m s rule: shrink5.induct)
  case (1 fitsAt m s)
  show ?case
  proof (cases "\<not> fitsAt s \<and> s > m")
    case True
    then show ?thesis using 1 by (subst (1 2) shrink5.simps) simp
  next
    case False
    then show ?thesis by (subst (1 2) shrink5.simps) auto
  qed
qed

lemma shrink5_ge_min: "m \<le> s \<Longrightarrow> 5 dvd (s - m) \<Longrightarrow> m \<le> shrink5 fitsAt m s"
proof (induction fitsAt m s rule: shrink5.induct)
  case (1 fitsAt m s)
  show ?case
  proof (cases "\<not> fitsAt s \<and> s > m")
    case True
    obtain k where k: "s - m = 5 * k" using "1.prems"(2) unfolding dvd_def by blast
    have "0 < k" using True k by (cases k) auto
    then have "5 \<le> s - m" using k by simp
    moreover have "s - 5 - m = 5 * (k - 1)" using k \<open>0 < k\<close> by auto
    then have "5 dvd (s - 5 - m)" by simp
    ultimately have "m \<le> shrink5 fitsAt m (s - 5)"
      using "1.IH" True by auto
    then show ?thesis using True by (subst shrink5.simps) simp
  next
    case False
    then show ?thesis using "1.prems" by (subst shrink5.simps) auto
  qed
qed

lemma shrink5_id: "fitsAt s \<Longrightarrow> shrink5 fitsAt m s = s"
  by (subst shrink5.simps) simp

lemma shrink2_fits_or_min: "fitsAt (shrink2 fitsAt m s) \<or> shrink2 fitsAt m s \<le> m"
proof (induction fitsAt m s rule: shrink2.induct)
  case (1 fitsAt m s)
  show ?case
  proof (cases "\<not> fitsAt s \<and> s > m")
    case True
    then show ?thesis using 1 by (subst (1 2) shrink2.simps) simp
  next
    case False
    then show ?thesis by (subst (1 2) shrink2.simps) auto
  qed
qed

lemma shrink2_ge_min: "m \<le> s \<Longrightarrow> 2 dvd (s - m) \<Longrightarrow> m \<le> shrink2 fitsAt m s"
proof (induction fitsAt m s rule: shrink2.induct)
  case (1 fitsAt m s)
  show ?case
  proof (cases "\<not> fitsAt s \<and> s > m")
    case True
    obtain k where k: "s - m = 2 * k" using "1.prems"(2) unfolding dvd_def by blast
    have "0 < k" using True k by (cases k) auto
    then have "2 \<le> s - m" using k by simp
    moreover have "s - 2 - m = 2 * (k - 1)" using k \<open>0 < k\<close> by auto
    then have "2 dvd (s - 2 - m)" by simp
    ultimately have "m \<le> shrink2 fitsAt m (s - 2)"
      using "1.IH" True by auto
    then show ?thesis using True by (subst shrink2.simps) simp
  next
    case False
    then show ?thesis using "1.prems" by (subst shrink2.simps) auto
  qed
qed

lemma shrink2_id: "fitsAt s \<Longrightarrow> shrink2 fitsAt m s = s"
  by (subst shrink2.simps) simp

lemma wrap_lines_inv:
  "\<forall>l\<in>set lines. P l \<Longrightarrow> P cur \<Longrightarrow> \<forall>w\<in>set ws. P w \<Longrightarrow> (\<And>x. f x \<Longrightarrow> P x)
   \<Longrightarrow> \<forall>l\<in>set (wrap f lines cur ws). P l"
proof (induction ws arbitrary: lines cur)
  case Nil
  then show ?case by simp
next
  case (Cons w ws)
  show ?case
  proof (cases "f (cur @ 32 # w)")
    case True
    have "\<forall>l\<in>set (wrap f lines (cur @ 32 # w) ws). P l"
      by (rule Cons.IH) (use Cons.prems True in auto)
    then show ?thesis using True by simp
  next
    case False
    have "\<forall>l\<in>set (wrap f (lines @ [cur]) w ws). P l"
      by (rule Cons.IH) (use Cons.prems in auto)
    then show ?thesis using False by simp
  qed
qed

lemma greedy_wrap_lines:
  "l \<in> set (greedy_wrap f t) \<Longrightarrow> l \<in> set (split_sp t) \<or> f l"
proof -
  assume a: "l \<in> set (greedy_wrap f t)"
  have "\<forall>l\<in>set (wrap f [] (hd (split_sp t)) (tl (split_sp t))). l \<in> set (split_sp t) \<or> f l"
  proof (rule wrap_lines_inv)
    show "\<forall>l\<in>set []. l \<in> set (split_sp t) \<or> f l" by simp
    show "hd (split_sp t) \<in> set (split_sp t) \<or> f (hd (split_sp t))"
      by (simp add: split_sp_nonempty)
    show "\<forall>w\<in>set (tl (split_sp t)). w \<in> set (split_sp t) \<or> f w"
      by (auto dest: list.set_sel(2) [OF split_sp_nonempty])
    show "\<And>x. f x \<Longrightarrow> x \<in> set (split_sp t) \<or> f x" by simp
  qed
  then show ?thesis using a by (simp add: greedy_wrap_def Let_def)
qed

lemma place_lines_elem:
  "l \<in> set (place_lines sizeOf h y lines) \<Longrightarrow>
   line_text l \<in> set lines \<and> line_size l = sizeOf (line_text l)"
  by (induction lines arbitrary: y) auto

lemma length_place_lines: "length (place_lines sizeOf h y lines) = length lines"
  by (induction lines arbitrary: y) auto

lemma map_text_place_lines: "map line_text (place_lines sizeOf h y lines) = lines"
  by (induction lines arbitrary: y) auto

lemma wrap_length: "Suc (length lines) \<le> length (wrap f lines cur ws)"
proof (induction ws arbitrary: lines cur)
  case Nil
  show ?case by simp
next
  case (Cons w ws)
  show ?case
    using Cons [of lines "cur @ 32 # w"] Cons [of "lines @ [cur]" w]
    by (auto simp: Let_def)
qed

lemma wrap_one_line:
  "length (wrap f lines cur ws) = Suc (length lines) \<Longrightarrow> ws \<noteq> [] \<Longrightarrow> f (join_sp (cur # ws))"
proof (induction ws arbitrary: lines cur)
  case Nil
  then show ?case by simp
next
  case (Cons w ws)
  show ?case
  proof (cases "f (cur @ 32 # w)")
    case True
    show ?thesis
    proof (cases ws)
      case Nil
      then show ?thesis using True by simp
    next
      case (Cons v vs)
      have "f (join_sp ((cur @ 32 # w) # ws))"
        using Cons.prems(1) True Cons Cons.IH [of lines "cur @ 32 # w"] by simp
      then show ?thesis using join_sp_merge [of "[]" cur w ws] by simp
    qed
  next
    case False
    have "Suc (length (lines @ [cur])) \<le> length (wrap f (lines @ [cur]) w ws)"
      by (rule wrap_length)
    then show ?thesis using Cons.prems(1) False by simp
  qed
qed

lemma space_two_words: "32 \<in> set t \<Longrightarrow> tl (split_sp t) \<noteq> []"
  by (induction t) (auto simp: split_sp_nonempty split: list.splits)

lemma greedy_wrap_two_lines:
  assumes "32 \<in> set t" and "\<not> f t"
  shows "2 \<le> length (greedy_wrap f t)"
proof (rule ccontr)
  assume "\<not> 2 \<le> length (greedy_wrap f t)"
  moreover have "Suc (length ([]::jsstring list)) \<le> length (wrap f [] (hd (split_sp t)) (tl (split_sp t)))"
    by (rule wrap_length)
  ultimately have "length (wrap f [] (hd (split_sp t)) (tl (split_sp t))) = Suc (length ([]::jsstring list))"
    by (simp add: greedy_wrap_def Let_def)
  then have "f (join_sp (hd (split_sp t) # tl (split_sp t)))"
    using space_two_words [OF assms(1)] by (rule wrap_one_line)
  then show False using assms(2) by (simp add: hd_tl_split_sp join_split_sp)
qed

lemma greedy_wrap_nonempty: "1 \<le> length (greedy_wrap f t)"
  using wrap_length [of "[]" f "hd (split_sp t)" "tl (split_sp t)"]
  by (simp add: greedy_wrap_def Let_def)

lemma mono_em_metric: "0 \<le> k \<Longrightarrow> mono_metric (em_metric k)"
  by (simp add: mono_metric_def em_metric_def mult_left_mono mult_right_mono)

lemma name_block_long:
  "19 < length t \<Longrightarrow>
   name_block m t =
     Inr (place_lines (\<lambda>line. shrink5 (nameFits m line) 80 (if length t > 25 then 120 else 150))
           (if length t > 25 then 130 else 160)
           (1100 - ((int (length (greedy_wrap (\<lambda>x. nameFits m x (if length t > 25 then 120 else 150)) t)) - 1)
                     * (if length t > 25 then 130 else 160)) div 2)
           (greedy_wrap (\<lambda>x. nameFits m x (if length t > 25 then 120 else 150)) t))"
  by (simp add: name_block_def Let_def)

lemma card_block_lines:
  "card_block m t =
     (if length t \<le> 15 \<and> cardFits m t (shrink2 (cardFits m t) 30 55)
      then [\<lparr>line_text = t, line_size = shrink2 (cardFits m t) 30 55, line_y = 1895\<rparr>]
      else place_lines (\<lambda>line. shrink2 (cardFits m line) 16 (if length t > 25 then 26 else 30))
             (if length t > 25 then 32 else 36)
             (let n = int (length (greedy_wrap (\<lambda>x. cardFits m x (if length t > 25 then 26 else 30)) t));
                  h = (if length t > 25 then 32 else 36)
              in if 1895 + (n - 1) * h > 1930 then 1930 - (n - 1) * h else 1895)
             (greedy_wrap (\<lambda>x. cardFits m x (if length t > 25 then 26 else 30)) t))"
  by (auto simp add: card_block_def Let_def)

lemma resolved5:
  fixes F :: "jsstring \<Rightarrow> nat \<Rightarrow> bool"
  assumes "l \<in> set (greedy_wrap (\<lambda>x. F x s0) t)" and "80 \<le> s0" and "5 dvd (s0 - 80)"
  shows "F l (shrink5 (F l) 80 s0) \<or>
         (l \<in> set (split_sp t) \<and> shrink5 (F l) 80 s0 = 80 \<and> \<not> F l 80)"
proof (cases "F l s0")
  case True
  then show ?thesis by (simp add: shrink5_id)
next
  case False
  then have w: "l \<in> set (split_sp t)" using greedy_wrap_lines [OF assms(1)] by simp
  show ?thesis
  proof (cases "F l (shrink5 (F l) 80 s0)")
    case True
    then show ?thesis by simp
  next
    case False
    then have "shrink5 (F l) 80 s0 \<le> 80" using shrink5_fits_or_min [of "F l" 80 s0] by simp
    moreover have "80 \<le> shrink5 (F l) 80 s0" using assms(2,3) by (rule shrink5_ge_min)
    ultimately have "shrink5 (F l) 80 s0 = 80" by simp
    then show ?thesis using False w by simp
  qed
qed

lemma resolved2:
  fixes F :: "jsstring \<Rightarrow> nat \<Rightarrow> bool"
  assumes "l \<in> set (greedy_wrap (\<lambda>x. F x s0) t)" and "16 \<le> s0" and "2 dvd (s0 - 16)"
  shows "F l (shrink2 (F l) 16 s0) \<or>
         (l \<in> set (split_sp t) \<and> shrink2 (F l) 16 s0 = 16 \<and> \<not> F l 16)"
proof (cases "F l s0")
  case True
  then show ?thesis by (simp add: shrink2_id)
next
  case False
  then have w: "l \<in> set (split_sp t)" using greedy_wrap_lines [OF assms(1)] by simp
  show ?thesis
  proof (cases "F l (shrink2 (F l) 16 s0)")
    case True
    then show ?thesis by simp
  next
    case False
    then have "shrink2 (F l) 16 s0 \<le> 16" using shrink2_fits_or_min [of "F l" 16 s0] by simp
    moreover have "16 \<le> shrink2 (F l) 16 s0" using assms(2,3) by (rule shrink2_ge_min)
    ultimately have "shrink2 (F l) 16 s0 = 16" by simp
    then show ?thesis using False w by simp
  qed
qed

lemma name_block_lines_fit:
  assumes "name_block m t = Inr ls" and "l \<in> set ls"
  shows "nameFits m (line_text l) (line_size l) \<or>
         (line_text l \<in> set (split_sp t) \<and> line_size l = 80 \<and> \<not> nameFits m (line_text l) 80)"
proof (cases "19 < length t")
  case False
  then show ?thesis using assms by (auto simp: name_block_def Let_def split: if_splits)
next
  case True
  let ?s0 = "if length t > 25 then 120 else (150::nat)"
  have ls: "l \<in> set (place_lines (\<lambda>line. shrink5 (nameFits m line) 80 ?s0)
           (if length t > 25 then 130 else 160)
           (1100 - ((int (length (greedy_wrap (\<lambda>x. nameFits m x ?s0) t)) - 1)
                     * (if length t > 25 then 130 else 160)) div 2)
           (greedy_wrap (\<lambda>x. nameFits m x ?s0) t))"
    using assms name_block_long [OF True, of m] by simp
  have mem: "line_text l \<in> set (greedy_wrap (\<lambda>x. nameFits m x ?s0) t)"
    and sz: "line_size l = shrink5 (nameFits m (line_text l)) 80 ?s0"
    using place_lines_elem [OF ls] by simp_all
  have "80 \<le> ?s0" and "5 dvd (?s0 - 80)" by simp_all
  from resolved5 [of "line_text l" "nameFits m" ?s0 t, OF mem this] show ?thesis using sz by simp
qed

lemma card_block_lines_fit:
  assumes "l \<in> set (card_block m t)"
  shows "cardFits m (line_text l) (line_size l) \<or>
         (line_text l \<in> set (split_sp t) \<and> line_size l = 16 \<and> \<not> cardFits m (line_text l) 16)"
proof (cases "length t \<le> 15 \<and> cardFits m t (shrink2 (cardFits m t) 30 55)")
  case True
  then show ?thesis using assms by (simp add: card_block_lines)
next
  case False
  let ?s0 = "if length t > 25 then 26 else (30::nat)"
  have mem: "line_text l \<in> set (greedy_wrap (\<lambda>x. cardFits m x ?s0) t)"
    and sz: "line_size l = shrink2 (cardFits m (line_text l)) 16 ?s0"
    using assms False place_lines_elem [of l "\<lambda>line. shrink2 (cardFits m line) 16 ?s0"]
    by (simp_all add: card_block_lines)
  have "16 \<le> ?s0" and "2 dvd (?s0 - 16)" by simp_all
  from resolved2 [of "line_text l" "cardFits m" ?s0 t, OF mem this] show ?thesis using sz by simp
qed


subsection \<open>The claims about the fitting engine\<close>

text \<open>
  Claim C1. A name of at most 19 code units whose single line is still wider than 2400
  at the minimum size 120 should fall back to the greedy word wrap and be drawn. In the
  certificate name block the fallback is the assignment of line 162 to the \<open>const\<close> of line
  145: the call throws instead. Two such names: nineteen letters W in a face whose bold W
  advances 1.1 em (2508 wide at size 120), and seven three-em dashes (code unit 11835,
  3 em each: 2520 wide at size 120).
\<close>

theorem name_block_fallback_throws:
  "length (js ''WWWWWWWWWWWWWWWWWWW'') \<le> 19 \<and>
   \<not> nameFits (em_metric (11/10)) (js ''WWWWWWWWWWWWWWWWWWW'') 120 \<and>
   name_block (em_metric (11/10)) (js ''WWWWWWWWWWWWWWWWWWW'') = Inl TypeError_assignment_to_constant \<and>
   length (replicate 7 (11835::nat)) \<le> 19 \<and>
   \<not> nameFits (em_metric 3) (replicate 7 11835) 120 \<and>
   name_block (em_metric 3) (replicate 7 11835) = Inl TypeError_assignment_to_constant"
  by (simp add: name_block_def nameFits_def em_metric_def shrink5.simps js_def)

text \<open>
  Claim C5, as stated: a name above the threshold (19 for the certificate, 15 for the
  card) gives at least two lines. It fails: the forced path is the greedy wrap, and the
  wrap breaks a line only on overflow. The 22 code units of VENKATA SATYA NARAYANA are
  1980 wide at size 150 in a face of 0.6 em per letter and stay on one line.
\<close>

theorem forced_multiline_one_line:
  "19 < length (js ''VENKATA SATYA NARAYANA'') \<and>
   name_block (em_metric (6/10)) (js ''VENKATA SATYA NARAYANA'')
     = Inr [\<lparr>line_text = js ''VENKATA SATYA NARAYANA'', line_size = 150, line_y = 1100\<rparr>]"
  by (simp add: name_block_def nameFits_def em_metric_def shrink5.simps greedy_wrap_def js_def)

text \<open>
  Claim C5, amended: a name above the threshold takes the word wrap and gives at least
  one line; it gives at least two lines whenever it contains a space and its single line
  does not fit the maximum width at the multi-line font size (120 or 150 for the
  certificate, 26 or 30 for the card).
\<close>

theorem forced_multiline_line_count:
  "(19 < length t \<longrightarrow>
      (\<exists>ls. name_block m t = Inr ls \<and> 1 \<le> length ls \<and>
         (32 \<in> set t \<and> \<not> nameFits m t (if 25 < length t then 120 else 150) \<longrightarrow> 2 \<le> length ls)))
   \<and> (15 < length u \<longrightarrow>
        1 \<le> length (card_block mc u) \<and>
        (32 \<in> set u \<and> \<not> cardFits mc u (if 25 < length u then 26 else 30)
           \<longrightarrow> 2 \<le> length (card_block mc u)))"
proof (intro conjI impI)
  assume long: "19 < length t"
  let ?f = "\<lambda>x. nameFits m x (if 25 < length t then 120 else 150)"
  show "\<exists>ls. name_block m t = Inr ls \<and> 1 \<le> length ls \<and>
         (32 \<in> set t \<and> \<not> nameFits m t (if 25 < length t then 120 else 150) \<longrightarrow> 2 \<le> length ls)"
    using name_block_long [OF long, of m] greedy_wrap_nonempty [of ?f t]
      greedy_wrap_two_lines [of t ?f]
    by (auto simp: length_place_lines)
next
  assume long: "15 < length u"
  let ?f = "\<lambda>x. cardFits mc x (if 25 < length u then 26 else 30)"
  have len: "length (card_block mc u) = length (greedy_wrap ?f u)"
    using long by (simp add: card_block_lines length_place_lines)
  show "1 \<le> length (card_block mc u)"
    using greedy_wrap_nonempty [of ?f u] len by simp
  assume "32 \<in> set u \<and> \<not> cardFits mc u (if 25 < length u then 26 else 30)"
  then show "2 \<le> length (card_block mc u)"
    using greedy_wrap_two_lines [of u ?f] len by simp
qed

theorem forced_multiline_line_count_witness:
  "19 < length (js ''VENKATA SATYA NARAYANA MURTHY'') \<and>
   32 \<in> set (js ''VENKATA SATYA NARAYANA MURTHY'') \<and>
   \<not> nameFits (em_metric (7/10)) (js ''VENKATA SATYA NARAYANA MURTHY'') 120 \<and>
   (\<exists>ls. name_block (em_metric (7/10)) (js ''VENKATA SATYA NARAYANA MURTHY'') = Inr ls \<and> 2 \<le> length ls) \<and>
   15 < length (js ''Venkata Satya Narayana Murthy'') \<and>
   32 \<in> set (js ''Venkata Satya Narayana Murthy'') \<and>
   \<not> cardFits (em_metric (6/10)) (js ''Venkata Satya Narayana Murthy'') 26 \<and>
   2 \<le> length (card_block (em_metric (6/10)) (js ''Venkata Satya Narayana Murthy''))"
proof -
  let ?n = "js ''VENKATA SATYA NARAYANA MURTHY''" and ?c = "js ''Venkata Satya Narayana Murthy''"
  have a: "19 < length ?n" and b: "32 \<in> set ?n"
    and c: "\<not> nameFits (em_metric (7/10)) ?n 120"
    and d: "15 < length ?c" and e: "32 \<in> set ?c"
    and f: "\<not> cardFits (em_metric (6/10)) ?c 26"
    by (simp_all add: js_def nameFits_def cardFits_def em_metric_def)
  have i: "(if 25 < length ?n then 120 else 150) = (120::nat)"
    and j: "(if 25 < length ?c then 26 else 30) = (26::nat)"
    by (simp_all add: js_def)
  from forced_multiline_line_count [of ?n "em_metric (7/10)" ?c "em_metric (6/10)"]
  have "(19 < length ?n \<longrightarrow>
          (\<exists>ls. name_block (em_metric (7/10)) ?n = Inr ls \<and> 1 \<le> length ls \<and>
             (32 \<in> set ?n \<and> \<not> nameFits (em_metric (7/10)) ?n 120 \<longrightarrow> 2 \<le> length ls)))
      \<and> (15 < length ?c \<longrightarrow>
          1 \<le> length (card_block (em_metric (6/10)) ?c) \<and>
          (32 \<in> set ?c \<and> \<not> cardFits (em_metric (6/10)) ?c 26
             \<longrightarrow> 2 \<le> length (card_block (em_metric (6/10)) ?c)))"
    by (simp only: i j)
  with a b c d e f show ?thesis by blast
qed

text \<open>
  Claim C6. Every line that is drawn fits the maximum width at the font size resolved for
  it, except a line that is a single word of the name and does not fit even at the
  minimum per-line size (80 on the certificate, 16 on the card), which is drawn at that
  minimum.
\<close>

theorem lines_fit_or_lone_word:
  "(\<forall>ls. name_block m t = Inr ls \<longrightarrow>
      (\<forall>l\<in>set ls. nameFits m (line_text l) (line_size l) \<or>
         (line_text l \<in> set (split_sp t) \<and> line_size l = 80 \<and> \<not> nameFits m (line_text l) 80)))
   \<and> (\<forall>l\<in>set (card_block mc u). cardFits mc (line_text l) (line_size l) \<or>
         (line_text l \<in> set (split_sp u) \<and> line_size l = 16 \<and> \<not> cardFits mc (line_text l) 16))"
  using name_block_lines_fit card_block_lines_fit by blast

theorem lines_fit_or_lone_word_witness:
  "name_block (em_metric (11/10)) (js ''SRI WWWWWWWWWWWWWWWWWWWWWWWWWWWWWW'')
     = Inr [\<lparr>line_text = js ''SRI'', line_size = 120, line_y = 1035\<rparr>,
            \<lparr>line_text = js ''WWWWWWWWWWWWWWWWWWWWWWWWWWWWWW'', line_size = 80, line_y = 1165\<rparr>]
   \<and> (nameFits (em_metric (11/10)) (js ''SRI'') 120 \<or>
        (js ''SRI'' \<in> set (split_sp (js ''SRI WWWWWWWWWWWWWWWWWWWWWWWWWWWWWW'')) \<and> (120::nat) = 80 \<and>
         \<not> nameFits (em_metric (11/10)) (js ''SRI'') 80))
   \<and> (nameFits (em_metric (11/10)) (js ''WWWWWWWWWWWWWWWWWWWWWWWWWWWWWW'') 80 \<or>
        (js ''WWWWWWWWWWWWWWWWWWWWWWWWWWWWWW'' \<in> set (split_sp (js ''SRI WWWWWWWWWWWWWWWWWWWWWWWWWWWWWW'')) \<and> (80::nat) = 80 \<and>
         \<not> nameFits (em_metric (11/10)) (js ''WWWWWWWWWWWWWWWWWWWWWWWWWWWWWW'') 80))
   \<and> \<not> nameFits (em_metric (11/10)) (js ''WWWWWWWWWWWWWWWWWWWWWWWWWWWWWW'') 80
   \<and> card_block (em_metric (6/10)) (js ''Kavuri Suhitha'')
        = [\<lparr>line_text = js ''Kavuri Suhitha'', line_size = 51, line_y = 1895\<rparr>]
   \<and> (cardFits (em_metric (6/10)) (js ''Kavuri Suhitha'') 51 \<or>
        (js ''Kavuri Suhitha'' \<in> set (split_sp (js ''Kavuri Suhitha'')) \<and> (51::nat) = 16 \<and>
         \<not> cardFits (em_metric (6/10)) (js ''Kavuri Suhitha'') 16))"
proof -
  let ?l1 = "\<lparr>line_text = js ''SRI'', line_size = 120, line_y = 1035\<rparr>"
  let ?l2 = "\<lparr>line_text = js ''WWWWWWWWWWWWWWWWWWWWWWWWWWWWWW'', line_size = 80, line_y = 1165\<rparr>"
  let ?c1 = "\<lparr>line_text = js ''Kavuri Suhitha'', line_size = 51, line_y = 1895\<rparr>"
  have ev: "name_block (em_metric (11/10)) (js ''SRI WWWWWWWWWWWWWWWWWWWWWWWWWWWWWW'') = Inr [?l1, ?l2]"
    by (simp add: name_block_def nameFits_def em_metric_def shrink5.simps greedy_wrap_def js_def)
  have nf: "\<not> nameFits (em_metric (11/10)) (js ''WWWWWWWWWWWWWWWWWWWWWWWWWWWWWW'') 80"
    by (simp add: nameFits_def em_metric_def js_def)
  have cv: "card_block (em_metric (6/10)) (js ''Kavuri Suhitha'') = [?c1]"
    by (simp add: card_block_def cardFits_def em_metric_def shrink2.simps js_def)
  note T = lines_fit_or_lone_word [of "em_metric (11/10)" "js ''SRI WWWWWWWWWWWWWWWWWWWWWWWWWWWWWW''"
      "em_metric (6/10)" "js ''Kavuri Suhitha''"]
  have n: "\<forall>l\<in>set [?l1, ?l2].
         nameFits (em_metric (11/10)) (line_text l) (line_size l) \<or>
         (line_text l \<in> set (split_sp (js ''SRI WWWWWWWWWWWWWWWWWWWWWWWWWWWWWW'')) \<and> line_size l = 80 \<and>
          \<not> nameFits (em_metric (11/10)) (line_text l) 80)"
    using T ev by blast
  have c: "\<forall>l\<in>set [?c1].
         cardFits (em_metric (6/10)) (line_text l) (line_size l) \<or>
         (line_text l \<in> set (split_sp (js ''Kavuri Suhitha'')) \<and> line_size l = 16 \<and>
          \<not> cardFits (em_metric (6/10)) (line_text l) 16)"
    using T cv by simp
  from n have "nameFits (em_metric (11/10)) (line_text ?l1) (line_size ?l1) \<or>
         (line_text ?l1 \<in> set (split_sp (js ''SRI WWWWWWWWWWWWWWWWWWWWWWWWWWWWWW'')) \<and> line_size ?l1 = 80 \<and>
          \<not> nameFits (em_metric (11/10)) (line_text ?l1) 80)"
    and "nameFits (em_metric (11/10)) (line_text ?l2) (line_size ?l2) \<or>
         (line_text ?l2 \<in> set (split_sp (js ''SRI WWWWWWWWWWWWWWWWWWWWWWWWWWWWWW'')) \<and> line_size ?l2 = 80 \<and>
          \<not> nameFits (em_metric (11/10)) (line_text ?l2) 80)"
    by simp_all
  moreover from c have "cardFits (em_metric (6/10)) (line_text ?c1) (line_size ?c1) \<or>
         (line_text ?c1 \<in> set (split_sp (js ''Kavuri Suhitha'')) \<and> line_size ?c1 = 16 \<and>
          \<not> cardFits (em_metric (6/10)) (line_text ?c1) 16)"
    by simp
  ultimately show ?thesis using ev nf cv by simp
qed

text \<open>
  Claim C7. A name of at most 19 code units (certificate) or 15 (card) that fits the
  maximum width at some font size at or above the minimum (120, 30), the start size
  included, is drawn on exactly one line. The fit at an arbitrary size reaches the sizes
  the loop tries through the monotonicity of the font metrics.
\<close>

theorem short_name_single_line:
  assumes "mono_metric m" and "mono_metric mc"
  shows "(length t \<le> 19 \<and> 120 \<le> s \<and> nameFits m t s \<longrightarrow>
            (\<exists>fs. name_block m t = Inr [\<lparr>line_text = t, line_size = fs, line_y = 1100\<rparr>]
                  \<and> nameFits m t fs))
       \<and> (length u \<le> 15 \<and> 30 \<le> s' \<and> cardFits mc u s' \<longrightarrow>
            (\<exists>fs. card_block mc u = [\<lparr>line_text = u, line_size = fs, line_y = 1895\<rparr>]
                  \<and> cardFits mc u fs))"
proof (intro conjI impI)
  assume h: "length t \<le> 19 \<and> 120 \<le> s \<and> nameFits m t s"
  let ?r = "shrink5 (nameFits m t) 120 200"
  have "nameFits m t ?r"
  proof (rule ccontr)
    assume n: "\<not> nameFits m t ?r"
    then have "?r \<le> 120" using shrink5_fits_or_min [of "nameFits m t" 120 200] by simp
    then have "?r \<le> s" using h by simp
    then have "m ?r t \<le> m s t" using assms(1) by (simp add: mono_metric_def)
    then show False using n h by (simp add: nameFits_def)
  qed
  then show "\<exists>fs. name_block m t = Inr [\<lparr>line_text = t, line_size = fs, line_y = 1100\<rparr>]
                  \<and> nameFits m t fs"
    using h by (simp add: name_block_def Let_def)
next
  assume h: "length u \<le> 15 \<and> 30 \<le> s' \<and> cardFits mc u s'"
  let ?r = "shrink2 (cardFits mc u) 30 55"
  have "cardFits mc u ?r"
  proof (rule ccontr)
    assume n: "\<not> cardFits mc u ?r"
    then have "?r \<le> 30" using shrink2_fits_or_min [of "cardFits mc u" 30 55] by simp
    then have "?r \<le> s'" using h by simp
    then have "mc ?r u \<le> mc s' u" using assms(2) by (simp add: mono_metric_def)
    then show False using n h by (simp add: cardFits_def)
  qed
  then show "\<exists>fs. card_block mc u = [\<lparr>line_text = u, line_size = fs, line_y = 1895\<rparr>]
                  \<and> cardFits mc u fs"
    using h by (simp add: card_block_lines)
qed

theorem short_name_single_line_witness:
  "mono_metric (em_metric (6/10)) \<and>
   length (js ''KAVURI SUHITHA'') \<le> 19 \<and> nameFits (em_metric (6/10)) (js ''KAVURI SUHITHA'') 200 \<and>
   (\<exists>fs. name_block (em_metric (6/10)) (js ''KAVURI SUHITHA'')
            = Inr [\<lparr>line_text = js ''KAVURI SUHITHA'', line_size = fs, line_y = 1100\<rparr>]) \<and>
   length (js ''Kavuri Suhitha'') \<le> 15 \<and> cardFits (em_metric (6/10)) (js ''Kavuri Suhitha'') 51 \<and>
   (\<exists>fs. card_block (em_metric (6/10)) (js ''Kavuri Suhitha'')
            = [\<lparr>line_text = js ''Kavuri Suhitha'', line_size = fs, line_y = 1895\<rparr>])"
proof -
  have mm: "mono_metric (em_metric (6/10))" by (simp add: mono_em_metric)
  have a: "length (js ''KAVURI SUHITHA'') \<le> 19 \<and> 120 \<le> (200::nat) \<and>
           nameFits (em_metric (6/10)) (js ''KAVURI SUHITHA'') 200"
    and b: "length (js ''Kavuri Suhitha'') \<le> 15 \<and> 30 \<le> (51::nat) \<and>
            cardFits (em_metric (6/10)) (js ''Kavuri Suhitha'') 51"
    by (simp_all add: js_def nameFits_def cardFits_def em_metric_def)
  from short_name_single_line [OF mm mm, of "js ''KAVURI SUHITHA''" 200 "js ''Kavuri Suhitha''" 51] a b mm
  show ?thesis by blast
qed

text \<open>
  Claim C10. The greedy wrap neither drops, duplicates nor reorders a word: the lines
  joined by single spaces are the text, and the words of the lines, in order, are the
  words of the text. This holds for every text, whatever its spacing.
\<close>

theorem greedy_wrap_keeps_words:
  "join_sp (greedy_wrap fitsML text) = text \<and>
   concat (map split_sp (greedy_wrap fitsML text)) = split_sp text"
  by (simp add: greedy_wrap_join greedy_wrap_split)

section \<open>Properties of the composer\<close>

text \<open>Evaluation of the examples: the rows, the photo resolver, the composer, the run.\<close>

lemmas row_eval = parseStudent_def getColumnValue_def demo_row_def js_def truthy_def or_empty_def
  trim_def js_whitespace_def
lemmas photo_eval = loadPhotoAsBase64_def photo_candidates_def replace_ext_def photo_ext_length_def
  ends_with_ci_def lower_ascii_def set_order_def photosPath_def demo_fetch_def
lemmas render_eval = renderCertificate_def name_block_def card_block_def nameFits_def cardFits_def
  em_metric_def shrink5.simps shrink2.simps greedy_wrap_def demo_browser_def ascii_upper_def
  signature_src_def qr_url_def

lemmas run_eval = generateBatchPDF_def process_row_def batchData_def endIndex_def startIndex_def
  batchSize_def js_slice_def initial_loop_state_def new_jsPDF_def finish_def failed_def
  finally_block_def await_def cancelGeneration_def add_english_page_def record_done_def
  skip_missing_photo_def skip_invalid_def addImage_def addPage_def no_result_def idle_def

text \<open>The only throws of a composition: the fallback of the name block, and a QR image
  that does not load.\<close>

lemma renderCertificate_throws:
  "renderCertificate E u photoBase64 lng = Inl e \<longleftrightarrow>
     name_block (measureName E) (toUpperCase E (student_name u)) = Inl e \<or>
     ((\<exists>ls. name_block (measureName E) (toUpperCase E (student_name u)) = Inr ls) \<and>
      (\<exists>src. qrcode E (qr_url (rollno u)) = QrImg src \<and> \<not> loadImage E src \<and> e = ImageLoadError src))"
  by (auto simp: renderCertificate_def Let_def split: sum.splits qr_dom.splits)

text \<open>
  Claim C2. The failure of a single asset should only degrade its element. The
  signature and the photo are loaded inside \<open>try/catch\<close> and a failure leaves them out (the
  second composition below, where no image loads and the QR code comes as a canvas); the
  QR image of line 513 is awaited outside any \<open>try\<close>, so when the library has produced an
  \<open>img\<close> whose source does not load, the whole composition rejects (the first one).
\<close>

theorem qr_load_failure_aborts:
  "renderCertificate qr_fails_browser asha (js ''data:A1'') En = Inl (ImageLoadError (js ''data:qr''))
   \<and> renderCertificate no_images_browser asha (js ''data:A1'') En =
       Inr [Background, IdText En (js ''A1''), TitleBlock En,
            NameLine \<lparr>line_text = js ''ASHA RAO'', line_size = 200, line_y = 1100\<rparr>,
            BodyText En, DateBlock En, SignatureBlock En, CardBody,
            CardNameLine \<lparr>line_text = js ''Asha Rao'', line_size = 55, line_y = 1895\<rparr>,
            QrBackground, QrCanvasImage]"
  by (simp add: qr_fails_browser_def no_images_browser_def asha_def render_eval js_def)

section \<open>Properties of the batch export\<close>

subsection \<open>The cancel flag and the in-flight flag\<close>

lemma await_simps [simp]:
  "tick (await E s) = Suc (tick s)"
  "isGenerating (glob (await E s)) = isGenerating (glob s)"
  "cancelRequested (glob (await E s)) \<longleftrightarrow>
     cancelRequested (glob s) \<or> (clickAt E (tick s) \<and> isGenerating (glob s))"
  "pdf (await E s) = pdf s" "firstPage (await E s) = firstPage s"
  "successCount (await E s) = successCount s" "skipCount (await E s) = skipCount s"
  by (simp_all add: await_def cancelGeneration_def)

lemma await_tracks: "flag_tracks_clicks E s \<Longrightarrow> flag_tracks_clicks E (await E s)"
  by (auto simp: flag_tracks_clicks_def less_Suc_eq)

lemma tracks_updates [simp]:
  "flag_tracks_clicks E (skip_invalid E i s) = flag_tracks_clicks E s"
  "flag_tracks_clicks E (skip_missing_photo E u s) = flag_tracks_clicks E s"
  "flag_tracks_clicks E (add_english_page img s) = flag_tracks_clicks E s"
  "flag_tracks_clicks E (add_telugu_page img s) = flag_tracks_clicks E s"
  "flag_tracks_clicks E (s\<lparr>currentStep := c\<rparr>) = flag_tracks_clicks E s"
  by (simp_all add: flag_tracks_clicks_def skip_invalid_def skip_missing_photo_def
        add_english_page_def add_telugu_page_def)

lemma record_done_tracks:
  "flag_tracks_clicks E s \<Longrightarrow> flag_tracks_clicks E (record_done E u s)"
proof -
  assume a: "flag_tracks_clicks E s"
  have "flag_tracks_clicks E (s\<lparr>successCount := successCount s + 1,
          generatedRollNumbers := generatedRollNumbers s @ [student_id u]\<rparr>)"
    using a by (simp add: flag_tracks_clicks_def)
  then show ?thesis unfolding record_done_def by (rule await_tracks)
qed

lemma process_row_tracks:
  "flag_tracks_clicks E s \<Longrightarrow> flag_tracks_clicks E (state_of (process_row E i row s))"
  by (simp add: process_row_def Let_def await_tracks record_done_tracks
        split: option.splits sum.splits)

lemma process_rows_tracks:
  "flag_tracks_clicks E s \<Longrightarrow> flag_tracks_clicks E (snd (process_rows E i rows s))"
proof (induction rows arbitrary: i s)
  case Nil
  then show ?case by simp
next
  case (Cons row rows)
  have t: "flag_tracks_clicks E (state_of (process_row E i row s))"
    using Cons.prems by (rule process_row_tracks)
  show ?case
  proof (cases "process_row E i row s")
    case (Continue s')
    then show ?thesis using t Cons.IH [of s' "Suc i"] by simp
  next
    case (Break s')
    then show ?thesis using t by simp
  next
    case (Throw e s')
    then show ?thesis using t by simp
  qed
qed

lemma loop_start_tracks: "\<not> isGenerating g \<Longrightarrow> flag_tracks_clicks E (loop_start E g)"
  by (auto simp: flag_tracks_clicks_def loop_start_def initial_loop_state_def cancelGeneration_def Let_def)

lemma generateBatchPDF_loop:
  "\<not> isGenerating g \<Longrightarrow> csvData E = Some csv \<Longrightarrow> batchData E csv \<noteq> [] \<Longrightarrow>
   generateBatchPDF E g =
     (case process_rows E 0 (batchData E csv) (loop_start E g) of
        (Some e, s) \<Rightarrow> (failed e s, finally_block (glob s))
      | (None, s) \<Rightarrow> (finish E csv s, finally_block (glob s)))"
  by (simp add: generateBatchPDF_def loop_start_def Let_def)

subsection \<open>The pages of the document\<close>

lemma pages_updates [simp]:
  "pages (await E s) = pages s"
  "pages (skip_invalid E i s) = pages s"
  "pages (skip_missing_photo E u s) = pages s"
  "pages (record_done E u s) = pages s"
  by (simp_all add: pages_def skip_invalid_def skip_missing_photo_def record_done_def await_def)

lemma fresh_updates [simp]:
  "pdf_fresh (await E s) = pdf_fresh s"
  "pdf_fresh (skip_invalid E i s) = pdf_fresh s"
  "pdf_fresh (skip_missing_photo E u s) = pdf_fresh s"
  "pdf_fresh (record_done E u s) = pdf_fresh s"
  by (simp_all add: pdf_fresh_def skip_invalid_def skip_missing_photo_def record_done_def await_def)

lemma count_updates [simp]:
  "successCount (skip_invalid E i s) = successCount s"
  "successCount (skip_missing_photo E u s) = successCount s"
  "successCount (record_done E u s) = Suc (successCount s)"
  "successCount (add_english_page img s) = successCount s"
  "skipCount (skip_invalid E i s) = Suc (skipCount s)"
  "skipCount (skip_missing_photo E u s) = Suc (skipCount s)"
  by (simp_all add: skip_invalid_def skip_missing_photo_def record_done_def add_english_page_def)

lemma flag_updates [simp]:
  "glob (skip_invalid E i s) = glob s"
  "glob (skip_missing_photo E u s) = glob s"
  "glob (add_english_page img s) = glob s"
  by (simp_all add: skip_invalid_def skip_missing_photo_def add_english_page_def)

lemma record_done_flag [simp]:
  "cancelRequested (glob (record_done E u s)) \<longleftrightarrow>
     cancelRequested (glob s) \<or> (clickAt E (tick s) \<and> isGenerating (glob s))"
  by (simp add: record_done_def await_def cancelGeneration_def)

lemma english_page:
  "pdf_fresh s \<Longrightarrow>
   pages (add_english_page img s) = pages s @ [[img]] \<and> pdf_fresh (add_english_page img s)"
  by (simp add: pages_def pdf_fresh_def add_english_page_def addImage_def addPage_def new_jsPDF_def)

lemma row_invalid:
  "\<not> cancelRequested (glob s) \<Longrightarrow> \<not> valid_row row \<Longrightarrow>
   process_row E i row s = Continue (skip_invalid E i s)"
  by (simp add: process_row_def valid_row_def split: option.splits)

lemma row_unresolved:
  "\<not> cancelRequested (glob s) \<Longrightarrow> valid_row row \<Longrightarrow> \<not> resolvable E row \<Longrightarrow> skipMissing E \<Longrightarrow>
   \<exists>u. process_row E i row s = Continue (skip_missing_photo E u (await E s))"
  by (auto simp: process_row_def valid_row_def resolvable_def photo_of_def Let_def split: option.splits)

lemma row_english:
  "\<not> cancelRequested (glob s) \<Longrightarrow> valid_row row \<Longrightarrow> \<not> generateTelugu E \<Longrightarrow>
   english_certificate E row = Some r \<Longrightarrow>
   \<exists>u. process_row E i row s =
     (case r of
        Inl e \<Rightarrow> Throw e (await E (await E s))
      | Inr img \<Rightarrow> Continue (record_done E u (add_english_page img (await E (await E (await E s))))))"
  by (auto simp: process_row_def valid_row_def english_certificate_def Let_def
        split: option.splits sum.splits)

lemma resolvable_certificate:
  "resolvable E row \<Longrightarrow> \<exists>r. english_certificate E row = Some r"
  by (auto simp: resolvable_def photo_of_def english_certificate_def split: option.splits)

lemma process_rows_pages:
  assumes "\<forall>row\<in>set rows. valid_row row" and "skipMissing E" and "\<not> generateTelugu E"
    and "pdf_fresh s" and "process_rows E i rows s = (None, s')"
    and "\<not> cancelRequested (glob s')"
  shows "pdf_fresh s' \<and>
         pages s' = pages s @ map (page_of E) (filter (resolvable E) rows) \<and>
         successCount s' = successCount s + length (filter (resolvable E) rows) \<and>
         (\<forall>row\<in>set (filter (resolvable E) rows). length (page_of E row) = 1)"
  using assms
proof (induction rows arbitrary: i s)
  case Nil
  then show ?case by simp
next
  case (Cons row rows)
  have valid: "valid_row row" and rest: "\<forall>r\<in>set rows. valid_row r" using Cons.prems(1) by simp_all
  have nc: "\<not> cancelRequested (glob s)"
  proof
    assume "cancelRequested (glob s)"
    then have "process_rows E i (row # rows) s = (None, s)" by (simp add: process_row_def)
    then show False using Cons.prems(5,6) \<open>cancelRequested (glob s)\<close> by simp
  qed
  show ?case
  proof (cases "resolvable E row")
    case False
    obtain u where step: "process_row E i row s = Continue (skip_missing_photo E u (await E s))"
      using row_unresolved [OF nc valid False Cons.prems(2)] by blast
    let ?s1 = "skip_missing_photo E u (await E s)"
    have run: "process_rows E (Suc i) rows ?s1 = (None, s')" using Cons.prems(5) step by simp
    have "pdf_fresh ?s1" using Cons.prems(4) by simp
    from Cons.IH [OF rest Cons.prems(2,3) this run Cons.prems(6)]
    show ?thesis using False by simp
  next
    case True
    obtain r where cert: "english_certificate E row = Some r"
      using resolvable_certificate [OF True] by blast
    obtain u where step: "process_row E i row s =
       (case r of
          Inl e \<Rightarrow> Throw e (await E (await E s))
        | Inr img \<Rightarrow> Continue (record_done E u (add_english_page img (await E (await E (await E s))))))"
      using row_english [OF nc valid Cons.prems(3) cert] by blast
    show ?thesis
    proof (cases r)
      case (Inl e)
      then show ?thesis using step Cons.prems(5) by simp
    next
      case (Inr img)
      let ?s0 = "await E (await E (await E s))"
      let ?s1 = "record_done E u (add_english_page img ?s0)"
      have run: "process_rows E (Suc i) rows ?s1 = (None, s')"
        using Cons.prems(5) step Inr by simp
      have f0: "pdf_fresh ?s0" using Cons.prems(4) by simp
      have pg: "pages ?s1 = pages s @ [[img]]" and f1: "pdf_fresh ?s1"
        using english_page [OF f0, of img] by simp_all
      have po: "page_of E row = [img]" using cert Inr by (simp add: page_of_def)
      from Cons.IH [OF rest Cons.prems(2,3) f1 run Cons.prems(6)]
      show ?thesis using True pg po by simp
    qed
  qed
qed

lemma process_rows_no_clicks:
  assumes "\<forall>row\<in>set rows. valid_row row" and "skipMissing E" and "\<not> generateTelugu E"
    and "\<forall>k. \<not> clickAt E k"
    and "\<forall>row\<in>set rows. resolvable E row \<longrightarrow> (\<exists>img. english_certificate E row = Some (Inr img))"
    and "\<not> cancelRequested (glob s)"
  shows "\<exists>s'. process_rows E i rows s = (None, s') \<and> \<not> cancelRequested (glob s')"
  using assms
proof (induction rows arbitrary: i s)
  case Nil
  then show ?case by simp
next
  case (Cons row rows)
  have valid: "valid_row row" and rest: "\<forall>r\<in>set rows. valid_row r" using Cons.prems(1) by simp_all
  have rest5: "\<forall>row\<in>set rows. resolvable E row \<longrightarrow> (\<exists>img. english_certificate E row = Some (Inr img))"
    using Cons.prems(5) by simp
  show ?case
  proof (cases "resolvable E row")
    case False
    obtain u where step: "process_row E i row s = Continue (skip_missing_photo E u (await E s))"
      using row_unresolved [OF Cons.prems(6) valid False Cons.prems(2)] by blast
    have "\<not> cancelRequested (glob (skip_missing_photo E u (await E s)))"
      using Cons.prems(4,6) by simp
    from Cons.IH [OF rest Cons.prems(2,3,4) rest5 this, of "Suc i"]
    show ?thesis using step by simp
  next
    case True
    then obtain img where cert: "english_certificate E row = Some (Inr img)"
      using Cons.prems(5) by auto
    obtain u where step: "process_row E i row s =
        Continue (record_done E u (add_english_page img (await E (await E (await E s)))))"
      using row_english [OF Cons.prems(6) valid Cons.prems(3) cert] by auto
    have "\<not> cancelRequested (glob (record_done E u (add_english_page img (await E (await E (await E s))))))"
      using Cons.prems(4,6) by simp
    from Cons.IH [OF rest Cons.prems(2,3,4) rest5 this, of "Suc i"]
    show ?thesis using step by simp
  qed
qed

lemma process_rows_all_skipped:
  assumes "\<forall>k. \<not> clickAt E k"
    and "\<forall>row\<in>set rows. \<not> valid_row row \<or> (\<not> resolvable E row \<and> skipMissing E)"
    and "\<not> cancelRequested (glob s)"
  shows "\<exists>s'. process_rows E i rows s = (None, s') \<and> \<not> cancelRequested (glob s') \<and>
              successCount s' = successCount s \<and> skipCount s' = skipCount s + length rows"
  using assms
proof (induction rows arbitrary: i s)
  case Nil
  then show ?case by simp
next
  case (Cons row rows)
  have rest: "\<forall>row\<in>set rows. \<not> valid_row row \<or> (\<not> resolvable E row \<and> skipMissing E)"
    using Cons.prems(2) by simp
  show ?case
  proof (cases "valid_row row")
    case False
    have step: "process_row E i row s = Continue (skip_invalid E i s)"
      using row_invalid [OF Cons.prems(3) False] .
    have "\<not> cancelRequested (glob (skip_invalid E i s))" using Cons.prems(3) by simp
    from Cons.IH [OF Cons.prems(1) rest this, of "Suc i"]
    show ?thesis using step by simp
  next
    case True
    then have un: "\<not> resolvable E row" and sk: "skipMissing E" using Cons.prems(2) by auto
    obtain u where step: "process_row E i row s = Continue (skip_missing_photo E u (await E s))"
      using row_unresolved [OF Cons.prems(3) True un sk] by blast
    have "\<not> cancelRequested (glob (skip_missing_photo E u (await E s)))"
      using Cons.prems(1,3) by simp
    from Cons.IH [OF Cons.prems(1) rest this, of "Suc i"]
    show ?thesis using step by simp
  qed
qed

lemma loop_start_facts:
  "pdf_fresh (loop_start E g)" "pages (loop_start E g) = []" "successCount (loop_start E g) = 0"
  "skipCount (loop_start E g) = 0"
  "\<not> clickAt E 0 \<Longrightarrow> \<not> cancelRequested (glob (loop_start E g))"
  by (simp_all add: loop_start_def initial_loop_state_def pdf_fresh_def pages_def Let_def)

lemma demo_batch:
  "batchData demo_env [demo_row ''A1'' ''Asha Rao'', demo_row ''B2'' ''Bala Kumar'',
                      demo_row ''C3'' ''Chitra Devi'']
   = [demo_row ''A1'' ''Asha Rao'', demo_row ''B2'' ''Bala Kumar'', demo_row ''C3'' ''Chitra Devi'']"
  by (simp add: batchData_def endIndex_def startIndex_def batchSize_def js_slice_def demo_env_def)

subsection \<open>The claims about the batch export\<close>

text \<open>
  Claim C3. If the cancel button is clicked during any wait of a run (whatever the
  number of records composed by then), the run saves no document, and it does not end as
  \<open>Completed\<close>.
\<close>

theorem cancel_discards_document:
  "clickAt E k \<Longrightarrow> k < duration (fst (generateBatchPDF E g)) \<Longrightarrow>
   saved (fst (generateBatchPDF E g)) = None \<and> status (fst (generateBatchPDF E g)) \<noteq> Completed"
proof -
  assume click: "clickAt E k" and k: "k < duration (fst (generateBatchPDF E g))"
  show ?thesis
  proof (cases "isGenerating g \<or> csvData E = None \<or> (\<exists>csv. csvData E = Some csv \<and> batchData E csv = [])")
    case True
    then show ?thesis
      by (auto simp: generateBatchPDF_def no_result_def Let_def)
  next
    case False
    then obtain csv where idle: "\<not> isGenerating g" and csv: "csvData E = Some csv"
      and ne: "batchData E csv \<noteq> []" by auto
    obtain x s where pr: "process_rows E 0 (batchData E csv) (loop_start E g) = (x, s)"
      by (cases "process_rows E 0 (batchData E csv) (loop_start E g)")
    have tr: "flag_tracks_clicks E s"
      using process_rows_tracks [OF loop_start_tracks [OF idle], of E 0 "batchData E csv"] pr by simp
    show ?thesis
    proof (cases x)
      case (Some e)
      then show ?thesis
        using generateBatchPDF_loop [OF idle csv ne] pr by (simp add: failed_def)
    next
      case None
      then have r: "fst (generateBatchPDF E g) = finish E csv s"
        using generateBatchPDF_loop [OF idle csv ne] pr by simp
      then have "k < tick s" using k by (simp add: finish_def)
      then have "cancelRequested (glob s)" using tr click by (auto simp: flag_tracks_clicks_def)
      then show ?thesis using r by (simp add: finish_def)
    qed
  qed
qed

theorem cancel_discards_document_witness:
  "clickAt cancel_env 4 \<and> 4 < duration (fst (generateBatchPDF cancel_env idle)) \<and>
   successes (fst (generateBatchPDF cancel_env idle)) = 1 \<and>
   saved (fst (generateBatchPDF cancel_env idle)) = None \<and>
   status (fst (generateBatchPDF cancel_env idle)) \<noteq> Completed"
proof -
  have c: "clickAt cancel_env 4" by (simp add: cancel_env_def)
  have r: "fst (generateBatchPDF cancel_env idle) =
     \<lparr>status = Cancelled, saved = None, successes = 1, skips = 0, generated = [js ''A1''],
      skipped = [], duration = 5\<rparr>"
    by (simp add: cancel_env_def demo_env_def run_eval row_eval photo_eval render_eval)
  have d: "4 < duration (fst (generateBatchPDF cancel_env idle))"
    and s: "successes (fst (generateBatchPDF cancel_env idle)) = 1"
    by (simp_all add: r)
  from cancel_discards_document [OF c d] c d s show ?thesis by blast
qed

text \<open>
  Claim C4. For a batch of \<open>N\<close> valid records, with missing photos skipped and without the
  second language, of which \<open>k\<close> have a photo that cannot be resolved: the document that
  the run saves has exactly \<open>N - k\<close> pages, one composition each, those of the records
  with a photo in the order of the input. The run saves a document when the cancel button
  is not clicked, every composition succeeds and some photo resolves.
\<close>

theorem batch_page_count:
  assumes "\<not> isGenerating g" and "csvData E = Some csv"
    and "\<forall>row\<in>set (batchData E csv). valid_row row"
    and "skipMissing E" and "\<not> generateTelugu E"
  shows "(\<forall>a b doc. saved (fst (generateBatchPDF E g)) = Some (a, b, doc) \<longrightarrow>
            doc = map (page_of E) (filter (resolvable E) (batchData E csv)) \<and>
            (\<forall>page\<in>set doc. length page = 1) \<and>
            length doc = length (batchData E csv)
                           - length (filter (\<lambda>row. \<not> resolvable E row) (batchData E csv)))
       \<and> ((\<forall>k. \<not> clickAt E k) \<and>
          (\<forall>row\<in>set (batchData E csv).
              resolvable E row \<longrightarrow> (\<exists>img. english_certificate E row = Some (Inr img))) \<and>
          (\<exists>row\<in>set (batchData E csv). resolvable E row)
          \<longrightarrow> (\<exists>a b doc. saved (fst (generateBatchPDF E g)) = Some (a, b, doc)))"
proof (intro conjI allI impI)
  fix a b doc
  assume sv: "saved (fst (generateBatchPDF E g)) = Some (a, b, doc)"
  let ?batch = "batchData E csv"
  have ne: "?batch \<noteq> []"
    using sv assms(1,2) by (auto simp: generateBatchPDF_def no_result_def Let_def)
  obtain x s where pr: "process_rows E 0 ?batch (loop_start E g) = (x, s)"
    by (cases "process_rows E 0 ?batch (loop_start E g)")
  have x: "x = None"
    using sv generateBatchPDF_loop [OF assms(1,2) ne] pr by (cases x) (simp_all add: failed_def)
  then have r: "fst (generateBatchPDF E g) = finish E csv s"
    using generateBatchPDF_loop [OF assms(1,2) ne] pr by simp
  have nc: "\<not> cancelRequested (glob s)" and pos: "0 < successCount s" and doc: "doc = pdf s"
    using sv r by (auto simp: finish_def split: if_splits)
  have A: "pages s = map (page_of E) (filter (resolvable E) ?batch)"
    "successCount s = length (filter (resolvable E) ?batch)"
    "\<forall>row\<in>set (filter (resolvable E) ?batch). length (page_of E row) = 1"
    using process_rows_pages [OF assms(3,4,5) loop_start_facts(1) pr [unfolded x] nc]
    by (simp_all add: loop_start_facts)
  have "pages s \<noteq> []" using A(1,2) pos by auto
  then have "pages s = pdf s" by (simp add: pages_def split: if_splits)
  then have d: "doc = map (page_of E) (filter (resolvable E) ?batch)" using A(1) doc by simp
  show "doc = map (page_of E) (filter (resolvable E) ?batch)" by (rule d)
  show "\<forall>page\<in>set doc. length page = 1" using A(3) d by auto
  have "length (filter (resolvable E) ?batch) + length (filter (\<lambda>row. \<not> resolvable E row) ?batch)
          = length ?batch"
    by (rule sum_length_filter_compl)
  then show "length doc = length ?batch - length (filter (\<lambda>row. \<not> resolvable E row) ?batch)"
    using d by simp
next
  let ?batch = "batchData E csv"
  assume h: "(\<forall>k. \<not> clickAt E k) \<and>
          (\<forall>row\<in>set ?batch. resolvable E row \<longrightarrow> (\<exists>img. english_certificate E row = Some (Inr img))) \<and>
          (\<exists>row\<in>set ?batch. resolvable E row)"
  then have ne: "?batch \<noteq> []" by auto
  have nc0: "\<not> cancelRequested (glob (loop_start E g))" using h by (simp add: loop_start_facts)
  obtain s where pr: "process_rows E 0 ?batch (loop_start E g) = (None, s)"
    and nc: "\<not> cancelRequested (glob s)"
    using process_rows_no_clicks [OF assms(3,4,5) _ _ nc0, of 0] h by blast
  have "successCount s = length (filter (resolvable E) ?batch)"
    using process_rows_pages [OF assms(3,4,5) loop_start_facts(1) pr nc]
    by (simp add: loop_start_facts)
  moreover have "filter (resolvable E) ?batch \<noteq> []" using h by (auto simp: filter_empty_conv)
  ultimately have "0 < successCount s" by simp
  then show "\<exists>a b doc. saved (fst (generateBatchPDF E g)) = Some (a, b, doc)"
    using generateBatchPDF_loop [OF assms(1,2) ne] pr nc by (simp add: finish_def)
qed

theorem batch_page_count_witness:
  "valid_row (demo_row ''A1'' ''Asha Rao'') \<and> valid_row (demo_row ''B2'' ''Bala Kumar'') \<and>
   valid_row (demo_row ''C3'' ''Chitra Devi'') \<and>
   resolvable demo_env (demo_row ''A1'' ''Asha Rao'') \<and>
   \<not> resolvable demo_env (demo_row ''B2'' ''Bala Kumar'') \<and>
   resolvable demo_env (demo_row ''C3'' ''Chitra Devi'') \<and>
   skipMissing demo_env \<and> \<not> generateTelugu demo_env \<and>
   (\<exists>a b doc. saved (fst (generateBatchPDF demo_env idle)) = Some (a, b, doc) \<and>
      doc = [page_of demo_env (demo_row ''A1'' ''Asha Rao''),
             page_of demo_env (demo_row ''C3'' ''Chitra Devi'')] \<and>
      length doc = 3 - 1)"
proof -
  let ?A = "demo_row ''A1'' ''Asha Rao''" and ?B = "demo_row ''B2'' ''Bala Kumar''"
    and ?C = "demo_row ''C3'' ''Chitra Devi''"
  have idle: "\<not> isGenerating idle" by (simp add: idle_def)
  have csv: "csvData demo_env = Some [?A, ?B, ?C]" by (simp add: demo_env_def)
  have flags: "skipMissing demo_env" "\<not> generateTelugu demo_env" "\<forall>k. \<not> clickAt demo_env k"
    by (simp_all add: demo_env_def)
  have v: "valid_row ?A" "valid_row ?B" "valid_row ?C"
    by (simp_all add: valid_row_def row_eval)
  have ph: "photo_of demo_env ?A = Some (js ''data:A1'')" "photo_of demo_env ?B = None"
    "photo_of demo_env ?C = Some (js ''data:C3'')"
    by (simp_all add: photo_of_def demo_env_def row_eval photo_eval)
  then have res: "resolvable demo_env ?A" "\<not> resolvable demo_env ?B" "resolvable demo_env ?C"
    by (simp_all add: resolvable_def)
  have cert: "\<exists>img. english_certificate demo_env ?A = Some (Inr img)"
    "\<exists>img. english_certificate demo_env ?C = Some (Inr img)"
    by (simp_all add: english_certificate_def demo_env_def row_eval photo_eval render_eval)
  have vb: "\<forall>row\<in>set (batchData demo_env [?A, ?B, ?C]). valid_row row"
    using v by (simp add: demo_batch)
  note T = batch_page_count [OF idle csv vb flags(1,2)]
  have "\<exists>a b doc. saved (fst (generateBatchPDF demo_env idle)) = Some (a, b, doc)"
    using T flags(3) cert res by (simp add: demo_batch)
  then obtain a b doc where sv: "saved (fst (generateBatchPDF demo_env idle)) = Some (a, b, doc)"
    by blast
  then have "doc = map (page_of demo_env) (filter (resolvable demo_env) (batchData demo_env [?A, ?B, ?C]))"
    and "length doc = length (batchData demo_env [?A, ?B, ?C])
            - length (filter (\<lambda>row. \<not> resolvable demo_env row) (batchData demo_env [?A, ?B, ?C]))"
    using T by blast+
  then have "doc = [page_of demo_env ?A, page_of demo_env ?C]" and "length doc = 3 - 1"
    using res by (simp_all add: demo_batch)
  then show ?thesis using sv v res flags by blast
qed

text \<open>
  Claim C8, as stated: a run that reaches the end of its record range without
  cancellation and with zero produced pages ends as \<open>Completed\<close>, not \<open>Failed\<close>. It fails
  for the empty range, which lines 239-241 reject with an \<open>Error\<close> that the \<open>catch\<close> block
  reports.
\<close>

theorem empty_range_fails:
  "(\<forall>k. \<not> clickAt empty_env k) \<and> csvData empty_env = Some [] \<and>
   successes (fst (generateBatchPDF empty_env idle)) = 0 \<and>
   status (fst (generateBatchPDF empty_env idle)) = Failed NoStudentsInRange \<and>
   status (fst (generateBatchPDF empty_env idle)) \<noteq> Completed"
  by (simp add: empty_env_def demo_env_def run_eval)

text \<open>
  Claim C8, amended: a run without cancellation over a non-empty record range in which
  no page is produced (every record is skipped, as invalid or for its missing photo) ends
  as \<open>Completed\<close> and saves no document; over an empty range the run ends as \<open>Failed\<close>
  (no students in the range) and saves no document.
\<close>

theorem nothing_produced_completes:
  assumes "\<not> isGenerating g" and "csvData E = Some csv" and "\<forall>k. \<not> clickAt E k"
    and "\<forall>row\<in>set (batchData E csv). \<not> valid_row row \<or> (\<not> resolvable E row \<and> skipMissing E)"
  shows "(batchData E csv \<noteq> [] \<longrightarrow>
            status (fst (generateBatchPDF E g)) = Completed \<and>
            saved (fst (generateBatchPDF E g)) = None \<and>
            successes (fst (generateBatchPDF E g)) = 0 \<and>
            skips (fst (generateBatchPDF E g)) = length (batchData E csv))
       \<and> (batchData E csv = [] \<longrightarrow>
            status (fst (generateBatchPDF E g)) = Failed NoStudentsInRange \<and>
            saved (fst (generateBatchPDF E g)) = None)"
proof (intro conjI impI)
  assume ne: "batchData E csv \<noteq> []"
  have nc0: "\<not> cancelRequested (glob (loop_start E g))" using assms(3) by (simp add: loop_start_facts)
  obtain s where pr: "process_rows E 0 (batchData E csv) (loop_start E g) = (None, s)"
    and nc: "\<not> cancelRequested (glob s)" and sc: "successCount s = 0"
    and sk: "skipCount s = length (batchData E csv)"
    using process_rows_all_skipped [OF assms(3,4) nc0, of 0] by (auto simp: loop_start_facts)
  have r: "fst (generateBatchPDF E g) = finish E csv s"
    using generateBatchPDF_loop [OF assms(1,2) ne] pr by simp
  show "status (fst (generateBatchPDF E g)) = Completed" using r nc by (simp add: finish_def)
  show "saved (fst (generateBatchPDF E g)) = None" using r sc by (simp add: finish_def)
  show "successes (fst (generateBatchPDF E g)) = 0" using r sc by (simp add: finish_def)
  show "skips (fst (generateBatchPDF E g)) = length (batchData E csv)"
    using r sk by (simp add: finish_def)
next
  assume e: "batchData E csv = []"
  then show "status (fst (generateBatchPDF E g)) = Failed NoStudentsInRange"
    using assms(1,2) by (simp add: generateBatchPDF_def no_result_def Let_def)
  show "saved (fst (generateBatchPDF E g)) = None"
    using e assms(1,2) by (simp add: generateBatchPDF_def no_result_def Let_def)
qed

theorem nothing_produced_completes_witness:
  "\<not> isGenerating idle \<and> (\<forall>k. \<not> clickAt blackout_env k) \<and> skipMissing blackout_env \<and>
   csvData blackout_env = Some [demo_row ''A1'' ''Asha Rao'', demo_row ''D4'' []] \<and>
   batchData blackout_env [demo_row ''A1'' ''Asha Rao'', demo_row ''D4'' []]
     = [demo_row ''A1'' ''Asha Rao'', demo_row ''D4'' []] \<and>
   \<not> resolvable blackout_env (demo_row ''A1'' ''Asha Rao'') \<and>
   \<not> valid_row (demo_row ''D4'' []) \<and>
   status (fst (generateBatchPDF blackout_env idle)) = Completed \<and>
   saved (fst (generateBatchPDF blackout_env idle)) = None \<and>
   skips (fst (generateBatchPDF blackout_env idle)) = 2"
proof -
  let ?A = "demo_row ''A1'' ''Asha Rao''" and ?D = "demo_row ''D4'' []"
  have idle: "\<not> isGenerating idle" by (simp add: idle_def)
  have csv: "csvData blackout_env = Some [?A, ?D]" by (simp add: blackout_env_def)
  have flags: "\<forall>k. \<not> clickAt blackout_env k" "skipMissing blackout_env"
    by (simp_all add: blackout_env_def demo_env_def)
  have batch: "batchData blackout_env [?A, ?D] = [?A, ?D]"
    by (simp add: batchData_def endIndex_def startIndex_def batchSize_def js_slice_def
          blackout_env_def demo_env_def)
  have a: "\<not> resolvable blackout_env ?A"
    by (simp add: resolvable_def photo_of_def blackout_env_def demo_env_def row_eval photo_eval)
  have d: "\<not> valid_row ?D" by (simp add: valid_row_def row_eval)
  have sk: "\<forall>row\<in>set (batchData blackout_env [?A, ?D]).
              \<not> valid_row row \<or> (\<not> resolvable blackout_env row \<and> skipMissing blackout_env)"
    using a d flags(2) by (simp add: batch)
  from nothing_produced_completes [OF idle csv flags(1) sk]
  have "status (fst (generateBatchPDF blackout_env idle)) = Completed"
    and "saved (fst (generateBatchPDF blackout_env idle)) = None"
    and "skips (fst (generateBatchPDF blackout_env idle)) = 2"
    by (simp_all add: batch)
  then show ?thesis using idle csv flags batch a d by blast
qed

text \<open>
  Claim C9. A call while a run is in flight returns at once and changes nothing; a run
  clears the in-flight flag on every way out (completed, failed, cancelled) and holds it
  after every pass of its loop, so a second call during a run is always the rejected one.
\<close>

theorem single_run_in_flight:
  "(isGenerating g \<longrightarrow> generateBatchPDF E g = (no_result Rejected 0, g))
   \<and> (\<not> isGenerating g \<longrightarrow>
        \<not> isGenerating (snd (generateBatchPDF E g))
        \<and> (\<forall>n rows. isGenerating (glob (snd (process_rows E 0 (take n rows) (loop_start E g))))))"
proof (intro conjI impI allI)
  assume "isGenerating g"
  then show "generateBatchPDF E g = (no_result Rejected 0, g)"
    by (simp add: generateBatchPDF_def)
next
  assume "\<not> isGenerating g"
  then show "\<not> isGenerating (snd (generateBatchPDF E g))"
    by (auto simp: generateBatchPDF_def finally_block_def Let_def split: option.splits prod.splits)
next
  fix n rows
  assume "\<not> isGenerating g"
  then have "flag_tracks_clicks E (snd (process_rows E 0 (take n rows) (loop_start E g)))"
    by (intro process_rows_tracks loop_start_tracks)
  then show "isGenerating (glob (snd (process_rows E 0 (take n rows) (loop_start E g))))"
    by (simp add: flag_tracks_clicks_def)
qed

theorem single_run_in_flight_witness:
  "isGenerating running \<and> generateBatchPDF demo_env running = (no_result Rejected 0, running) \<and>
   \<not> isGenerating idle \<and>
   status (fst (generateBatchPDF demo_env idle)) = Completed \<and>
   \<not> isGenerating (snd (generateBatchPDF demo_env idle)) \<and>
   status (fst (generateBatchPDF cancel_env idle)) = Cancelled \<and>
   \<not> isGenerating (snd (generateBatchPDF cancel_env idle)) \<and>
   status (fst (generateBatchPDF empty_env idle)) = Failed NoStudentsInRange \<and>
   \<not> isGenerating (snd (generateBatchPDF empty_env idle))"
proof -
  have r: "isGenerating running" and i: "\<not> isGenerating idle"
    by (simp_all add: running_def idle_def)
  have s1: "status (fst (generateBatchPDF demo_env idle)) = Completed"
    by (simp add: demo_env_def run_eval row_eval photo_eval render_eval)
  have s2: "status (fst (generateBatchPDF cancel_env idle)) = Cancelled"
    by (simp add: cancel_env_def demo_env_def run_eval row_eval photo_eval render_eval)
  have s3: "status (fst (generateBatchPDF empty_env idle)) = Failed NoStudentsInRange"
    by (simp add: empty_env_def demo_env_def run_eval)
  from single_run_in_flight [of running demo_env] single_run_in_flight [of idle demo_env]
    single_run_in_flight [of idle cancel_env] single_run_in_flight [of idle empty_env]
    r i s1 s2 s3
  show ?thesis by blast
qed

end
